theory Spec2Isabelle
  imports Main
begin

section \<open>Strings of the script language\<close>

text \<open>
  Python strings are modelled as \<^typ>\<open>string\<close>: the UTF-8 bytes of the text. Every
  character class the engine tests (\<open>[A-Za-z_]\<close>, \<open>[A-Za-z0-9_]\<close>, the markers
  \<open>$ { | }\<close>) is ASCII, so a test on bytes agrees with the test on code points.
  \<open>str.lower()\<close> is modelled on the ASCII letters only.
\<close>

definition is_ident_start :: "char \<Rightarrow> bool" where
  "is_ident_start c \<longleftrightarrow>
     c \<in> set ''ABCDEFGHIJKLMNOPQRSTUVWXYZabcdefghijklmnopqrstuvwxyz_''"

definition is_ident_char :: "char \<Rightarrow> bool" where
  "is_ident_char c \<longleftrightarrow> is_ident_start c \<or> c \<in> set ''0123456789''"

definition is_space :: "char \<Rightarrow> bool" where
  "is_space c \<longleftrightarrow> (of_char c :: nat) \<in> {9, 10, 11, 12, 13, 28, 29, 30, 31, 32}"

definition lower_char :: "char \<Rightarrow> char" where
  "lower_char c =
     (case map_of (zip ''ABCDEFGHIJKLMNOPQRSTUVWXYZ'' ''abcdefghijklmnopqrstuvwxyz'') c of
        Some d \<Rightarrow> d
      | None \<Rightarrow> c)"

definition lower :: "string \<Rightarrow> string" where
  "lower s = map lower_char s"

definition strip :: "string \<Rightarrow> string" where
  "strip s = rev (dropWhile is_space (rev (dropWhile is_space s)))"

text \<open>\<open>s.startswith(p)\<close>\<close>

definition startswith :: "string \<Rightarrow> string \<Rightarrow> bool" where
  "startswith s p \<longleftrightarrow> take (length p) s = p"

text \<open>\<open>s.replace(old, new)\<close> for a non-empty \<open>old\<close>: left to right, non-overlapping.\<close>

fun replace_all :: "string \<Rightarrow> string \<Rightarrow> string \<Rightarrow> string" where
  "replace_all old new [] = []"
| "replace_all old new (c # cs) =
     (if old \<noteq> [] \<and> take (length old) (c # cs) = old
      then new @ replace_all old new (drop (length old) (c # cs))
      else c # replace_all old new cs)"

subsection \<open>\<open>urllib.parse.quote_plus\<close>\<close>

text \<open>
  \<open>quote_plus\<close> with its default \<open>safe=''\<close>: the unreserved characters stay, a space
  becomes \<open>+\<close>, every other byte becomes \<open>%XX\<close> with upper-case hexadecimal digits.
\<close>

definition always_safe :: "char \<Rightarrow> bool" where
  "always_safe c \<longleftrightarrow> is_ident_char c \<or> c \<in> set ''.-~''"

definition hex_digit :: "nat \<Rightarrow> char" where
  "hex_digit n = ''0123456789ABCDEF'' ! (n mod 16)"

definition quote_char :: "char \<Rightarrow> string" where
  "quote_char c =
     (if always_safe c then [c]
      else if c = CHR '' '' then ''+''
      else [CHR ''%'', hex_digit ((of_char c :: nat) div 16), hex_digit (of_char c :: nat)])"

definition quote_plus :: "string \<Rightarrow> string" where
  "quote_plus s = concat (map quote_char s)"

subsection \<open>The placeholder pattern\<close>

text \<open>
  \<open>_VAR_PATTERN\<close> is
  \<^verbatim>\<open>\$\{([A-Za-z_][A-Za-z0-9_]*)(?:\|([A-Za-z_][A-Za-z0-9_]*))?\}\<close>.
  \<open>take_ident\<close> reads the longest identifier at the head of a string (the greedy
  \<open>[A-Za-z_][A-Za-z0-9_]*\<close>); a shorter identifier can never be followed by \<open>|\<close> or
  \<open>}\<close>, so backtracking finds nothing more. \<open>match_placeholder\<close> matches the pattern
  at the head of a string that has just lost its \<open>$\<close>, and returns the two groups and
  the text after the match.
\<close>

definition take_ident :: "string \<Rightarrow> (string \<times> string) option" where
  "take_ident s =
     (case s of
        [] \<Rightarrow> None
      | c # cs \<Rightarrow>
          if is_ident_start c
          then Some (c # takeWhile is_ident_char cs, dropWhile is_ident_char cs)
          else None)"

definition match_close :: "string \<Rightarrow> string option \<Rightarrow> string \<Rightarrow> (string \<times> string option \<times> string) option" where
  "match_close name filt s =
     (case s of
        [] \<Rightarrow> None
      | c # r \<Rightarrow> if c = CHR ''}'' then Some (name, filt, r) else None)"

definition match_placeholder :: "string \<Rightarrow> (string \<times> string option \<times> string) option" where
  "match_placeholder s =
     (case s of
        [] \<Rightarrow> None
      | b # r \<Rightarrow>
          if b \<noteq> CHR ''{'' then None
          else (case take_ident r of
                  None \<Rightarrow> None
                | Some (name, r1) \<Rightarrow>
                    (case r1 of
                       [] \<Rightarrow> None
                     | c # r2 \<Rightarrow>
                         if c = CHR ''}'' then Some (name, None, r2)
                         else if c = CHR ''|''
                         then (case take_ident r2 of
                                 None \<Rightarrow> None
                               | Some (f, r3) \<Rightarrow> match_close name (Some f) r3)
                         else None)))"

lemma take_ident_shorter:
  "take_ident s = Some (n, r) \<Longrightarrow> length r < length s"
  by (auto simp: take_ident_def length_dropWhile_le less_Suc_eq_le split: list.splits if_splits)

lemma match_placeholder_shorter:
  "match_placeholder s = Some (n, f, r) \<Longrightarrow> length r < length s"
  by (auto simp: match_placeholder_def match_close_def
           split: list.splits if_splits option.splits
           dest!: take_ident_shorter)

section \<open>Values and the host\<close>

text \<open>
  The Variable Store holds dynamically typed values: \<open>None\<close>, booleans, integers,
  floats, strings and lists. Floats are the host's: the type \<open>'f\<close> and its operations
  are taken from the \<open>host\<close> record below, so no rounding behaviour is assumed.
\<close>

datatype 'f pyval =
    VNone
  | VBool bool
  | VInt int
  | VFloat 'f
  | VStr string
  | VList "'f pyval list"

type_synonym 'f vars = "string \<rightharpoonup> 'f pyval"

text \<open>
  An element of the script tree (\<open>ET.Element\<close>): tag, attributes in document order,
  children, inline text. A comment or processing instruction is a child whose \<open>tag\<close> is
  not a string.
\<close>

datatype node =
    Element string "(string \<times> string) list" "node list" "string option"
  | Comment

fun tag_of :: "node \<Rightarrow> string option" where
  "tag_of (Element t a c x) = Some t"
| "tag_of Comment = None"

fun attrib :: "node \<Rightarrow> (string \<times> string) list" where
  "attrib (Element t a c x) = a"
| "attrib Comment = []"

fun children :: "node \<Rightarrow> node list" where
  "children (Element t a c x) = c"
| "children Comment = []"

text \<open>\<open>node.get(k)\<close>\<close>

definition get_attr :: "node \<Rightarrow> string \<Rightarrow> string option" where
  "get_attr node k = map_of (attrib node) k"

text \<open>\<open>node.get(k)\<close> used as a condition or before \<open>or\<close>: an empty string counts as missing.\<close>

definition get_nonempty :: "node \<Rightarrow> string \<Rightarrow> string option" where
  "get_nonempty node k =
     (case get_attr node k of
        None \<Rightarrow> None
      | Some v \<Rightarrow> if v = [] then None else Some v)"

text \<open>Exceptions that leave the engine.\<close>

datatype exn =
    ValueError string
  | AssertionError string
  | TypeError
  | HostException string

text \<open>What a collaborator directive does to the engine: it raises, or it assigns variables.\<close>

datatype 'f outcome =
    Fails exn
  | Assigns "(string \<times> 'f pyval) list" bool

text \<open>
  The host: the Python runtime and the external collaborators, with a state \<open>'w\<close> of its
  own (random generator, processes, windows) threaded through every call that may depend on
  it or change it.
  \<^item> \<open>py_eval expr env w\<close> is \<open>eval(expr, {"__builtins__": {}}, env)\<close>; \<open>env = None\<close>
    is the empty namespace, \<open>env = Some vs\<close> is \<open>_ALLOWED_MATH\<close> updated with \<open>vs\<close>;
    the result \<open>None\<close> is any exception.
  \<^item> \<open>float_of_str\<close>, \<open>float_of_int\<close>, \<open>int_of_str\<close>, \<open>float_trunc\<close> are
    \<open>float(s)\<close>, \<open>float(n)\<close>, \<open>int(s)\<close>, \<open>int(f)\<close>, with \<open>None\<close> for an exception.
  \<^item> \<open>uniform_ms n w\<close> is \<open>int(random.uniform(0, n/1000.0)*1000)\<close>.
  \<^item> \<open>env_voice w\<close> is \<open>os.getenv("USEFULCLICKER_VOICE", "0")\<close>; \<open>voice_start dev w\<close>
    starts the voice daemon: \<open>None\<close> when the class is unavailable or the start fails,
    \<open>Some b\<close> when it runs, \<open>b\<close> telling whether the daemon has \<open>get_event\<close>.
  \<^item> \<open>shuffle\<close> is \<open>random.shuffle\<close>.
  \<^item> \<open>action node vs w\<close> is the effect of a collaborator directive (\<open>type\<close>, \<open>click\<close>,
    \<open>hotkey\<close>, \<open>shell\<close>, \<open>focus\<close>, \<open>llmcall\<close>, \<open>extnode\<close>) up to its delays: the exception
    it raises, or the variables it assigns and whether the delay contract follows.
\<close>

record ('f, 'w) host =
  str_float :: "'f \<Rightarrow> string"
  str_list :: "'f pyval list \<Rightarrow> string"
  float_of_str :: "string \<Rightarrow> 'f option"
  float_of_int :: "int \<Rightarrow> 'f option"
  float_sub :: "'f \<Rightarrow> 'f \<Rightarrow> 'f"
  float_abs :: "'f \<Rightarrow> 'f"
  float_le :: "'f \<Rightarrow> 'f \<Rightarrow> bool"
  float_trunc :: "'f \<Rightarrow> int option"
  float_nonzero :: "'f \<Rightarrow> bool"
  int_of_str :: "string \<Rightarrow> int option"
  py_eval :: "string \<Rightarrow> 'f vars option \<Rightarrow> 'w \<Rightarrow> 'f pyval option \<times> 'w"
  shuffle :: "'f pyval list \<Rightarrow> 'w \<Rightarrow> 'f pyval list \<times> 'w"
  uniform_ms :: "int \<Rightarrow> 'w \<Rightarrow> int \<times> 'w"
  env_voice :: "'w \<Rightarrow> string"
  voice_start :: "int option \<Rightarrow> 'w \<Rightarrow> bool option \<times> 'w"
  action :: "node \<Rightarrow> 'f vars \<Rightarrow> 'w \<Rightarrow> 'f outcome \<times> 'w"

subsection \<open>\<open>str\<close>, \<open>float\<close>, \<open>int\<close>, \<open>bool\<close> on values\<close>

fun digits :: "nat \<Rightarrow> nat \<Rightarrow> string" where
  "digits 0 n = []"
| "digits (Suc k) n =
     (if n < 10 then [''0123456789'' ! n]
      else digits k (n div 10) @ [''0123456789'' ! (n mod 10)])"

definition str_nat :: "nat \<Rightarrow> string" where
  "str_nat n = digits (Suc n) n"

definition str_int :: "int \<Rightarrow> string" where
  "str_int i = (if i < 0 then CHR ''-'' # str_nat (nat (- i)) else str_nat (nat i))"

fun py_str :: "('f, 'w) host \<Rightarrow> 'f pyval \<Rightarrow> string" where
  "py_str h VNone = ''None''"
| "py_str h (VBool b) = (if b then ''True'' else ''False'')"
| "py_str h (VInt i) = str_int i"
| "py_str h (VFloat f) = str_float h f"
| "py_str h (VStr s) = s"
| "py_str h (VList xs) = str_list h xs"

fun py_float :: "('f, 'w) host \<Rightarrow> 'f pyval \<Rightarrow> 'f option" where
  "py_float h VNone = None"
| "py_float h (VBool b) = float_of_int h (if b then 1 else 0)"
| "py_float h (VInt i) = float_of_int h i"
| "py_float h (VFloat f) = Some f"
| "py_float h (VStr s) = float_of_str h s"
| "py_float h (VList xs) = None"

fun py_int :: "('f, 'w) host \<Rightarrow> 'f pyval \<Rightarrow> int option" where
  "py_int h VNone = None"
| "py_int h (VBool b) = Some (if b then 1 else 0)"
| "py_int h (VInt i) = Some i"
| "py_int h (VFloat f) = float_trunc h f"
| "py_int h (VStr s) = int_of_str h s"
| "py_int h (VList xs) = None"

fun py_bool :: "('f, 'w) host \<Rightarrow> 'f pyval \<Rightarrow> bool" where
  "py_bool h VNone = False"
| "py_bool h (VBool b) = b"
| "py_bool h (VInt i) = (i \<noteq> 0)"
| "py_bool h (VFloat f) = float_nonzero h f"
| "py_bool h (VStr s) = (s \<noteq> [])"
| "py_bool h (VList xs) = (xs \<noteq> [])"

section \<open>Substitution and evaluation\<close>

text \<open>\<open>_apply_filter\<close>\<close>

definition apply_filter :: "('f, 'w) host \<Rightarrow> 'f pyval \<Rightarrow> string option \<Rightarrow> string" where
  "apply_filter h v filt =
     (let f = lower (strip (case filt of None \<Rightarrow> [] | Some x \<Rightarrow> x))
      in if f \<in> set [''url'', ''urlencode'', ''quote'', ''quote_plus'']
         then quote_plus (py_str h v)
         else py_str h v)"

text \<open>
  The replacement function \<open>repl\<close> of \<open>_substitute_vars\<close>: \<open>variables.get(var, "")\<close>,
  then the filter.
\<close>

definition get_or_empty :: "'f vars \<Rightarrow> string \<Rightarrow> 'f pyval" where
  "get_or_empty vs var = (case vs var of None \<Rightarrow> VStr [] | Some v \<Rightarrow> v)"

definition repl :: "('f, 'w) host \<Rightarrow> 'f vars \<Rightarrow> string \<Rightarrow> string option \<Rightarrow> string" where
  "repl h vs var filt = apply_filter h (get_or_empty vs var) filt"

text \<open>
  \<open>_VAR_PATTERN.sub(repl, value)\<close>: one pass from the left; at a \<open>$\<close> where the pattern
  matches, the replacement is emitted and the scan goes on after the match (the replacement
  is not scanned again); every other character is copied.
\<close>

function sub_scan :: "('f, 'w) host \<Rightarrow> 'f vars \<Rightarrow> string \<Rightarrow> string" where
  "sub_scan h vs [] = []"
| "sub_scan h vs (c # cs) =
     (if c = CHR ''$''
      then (case match_placeholder cs of
              Some (var, filt, rest) \<Rightarrow> repl h vs var filt @ sub_scan h vs rest
            | None \<Rightarrow> c # sub_scan h vs cs)
      else c # sub_scan h vs cs)"
  by pat_completeness auto
termination
  by (relation "measure (\<lambda>(h, vs, s). length s)")
     (auto dest: match_placeholder_shorter)

text \<open>\<open>_substitute_vars\<close>\<close>

definition substitute_vars :: "('f, 'w) host \<Rightarrow> string option \<Rightarrow> 'f vars \<Rightarrow> string" where
  "substitute_vars h v vs = (case v of None \<Rightarrow> [] | Some s \<Rightarrow> sub_scan h vs s)"

text \<open>\<open>_safe_eval\<close>\<close>

definition safe_eval :: "('f, 'w) host \<Rightarrow> string \<Rightarrow> 'f vars \<Rightarrow> 'w \<Rightarrow> 'f pyval option \<times> 'w" where
  "safe_eval h expr vs w =
     py_eval h (replace_all ''&gt;'' ''>'' (replace_all ''&lt;'' ''<'' expr)) (Some vs) w"

section \<open>The engine and its interrupt controller\<close>

text \<open>
  The outside world, as the worker sees it at one observation point (one test of a flag in
  a wait or pause loop):
  \<^item> \<open>hotkey_pause\<close>, \<open>hotkey_skip\<close>: since the last observation the listener thread (or
    a programmatic caller) ran \<open>_toggle_pause\<close>, \<open>_skip_wait_now\<close>;
  \<^item> \<open>keys\<close>: what \<open>keyboard.is_pressed\<close> answers for \<open>ctrl\<close>, \<open>n\<close> and \<open>space\<close>;
    \<open>None\<close> when the \<open>keyboard\<close> module is missing or raises;
  \<^item> \<open>skip_event\<close>, \<open>pause_event\<close>: \<open>SKIP_EVENT.is_set()\<close> and
    \<open>PAUSE_TOGGLE_EVENT.is_set()\<close> of the voice bridge (false when the import fails);
  \<^item> \<open>voice_any\<close>, \<open>voice_command\<close>, \<open>voice_query\<close>: what the voice daemon's
    \<open>get_event\<close> (type and text), \<open>get_next_command\<close>, \<open>get_next_query\<close> return.
\<close>

record input =
  hotkey_pause :: bool
  hotkey_skip :: bool
  keys :: "(bool \<times> bool \<times> bool) option"
  skip_event :: bool
  pause_event :: bool
  voice_any :: "(string \<times> string) option"
  voice_command :: "string option"
  voice_query :: "string option"

definition quiet :: input where
  "quiet = \<lparr> hotkey_pause = False, hotkey_skip = False, keys = None,
             skip_event = False, pause_event = False,
             voice_any = None, voice_command = None, voice_query = None \<rparr>"

datatype 'f logmsg =
    LogPause bool
  | LogPauseBridge bool
  | LogSkipRequested
  | LogWaitInterrupted
  | LogWaitInterruptedBridge
  | LogVoice string
  | LogVoiceInterrupted
  | LogVoiceEvent string string string
  | LogVoicePoll string string string string
  | LogSet string "'f pyval"
  | LogIf string bool
  | LogIfError string
  | LogCheck string "'f pyval option" string "'f option" bool
  | LogCall string
  | LogRepeat nat
  | LogWait int

text \<open>
  The fields of \<open>XMLProgram\<close> that the interpreter uses, and what it reads from outside:
  \<open>clock\<close> is \<open>time.time()\<close> in milliseconds, \<open>time.sleep\<close> advances it by the time
  slept; \<open>inputs\<close> is the schedule of observations still to come (after its end the
  outside world stays quiet); \<open>world\<close> is the host's state; \<open>log\<close> is what went to
  \<open>logger.info\<close>.
\<close>

record ('f, 'w) engine =
  variables :: "'f vars"
  "functions" :: "string \<rightharpoonup> node"
  tree :: node
  skip_wait :: bool
  paused :: bool
  last_ctrlspace :: bool
  voice :: "bool option"
  log :: "'f logmsg list"
  clock :: int
  inputs :: "input list"
  world :: 'w

text \<open>
  The result of running a piece of the engine: it returns, an exception leaves it (with the
  engine as the exception found it), or it never returns (a pause nobody ends, a nesting
  deeper than the depth allowed).
\<close>

datatype ('a, 's) result =
    Done 'a
  | Raised exn 's
  | Unfinished

definition bind :: "('a, 's) result \<Rightarrow> ('a \<Rightarrow> ('b, 's) result) \<Rightarrow> ('b, 's) result" where
  "bind r f = (case r of Done x \<Rightarrow> f x | Raised e s \<Rightarrow> Raised e s | Unfinished \<Rightarrow> Unfinished)"

definition info :: "'f logmsg \<Rightarrow> ('f, 'w) engine \<Rightarrow> ('f, 'w) engine" where
  "info m st = st\<lparr>log := log st @ [m]\<rparr>"

definition sleep :: "int \<Rightarrow> ('f, 'w) engine \<Rightarrow> ('f, 'w) engine" where
  "sleep ms st = st\<lparr>clock := clock st + ms\<rparr>"

text \<open>\<open>_toggle_pause\<close>, \<open>_skip_wait_now\<close>\<close>

definition toggle_pause :: "('f, 'w) engine \<Rightarrow> ('f, 'w) engine" where
  "toggle_pause st = info (LogPause (\<not> paused st)) (st\<lparr>paused := \<not> paused st\<rparr>)"

definition skip_wait_now :: "('f, 'w) engine \<Rightarrow> ('f, 'w) engine" where
  "skip_wait_now st = info LogSkipRequested (st\<lparr>skip_wait := True\<rparr>)"

text \<open>What the listener thread did since the last observation becomes visible.\<close>

definition deliver :: "input \<Rightarrow> ('f, 'w) engine \<Rightarrow> ('f, 'w) engine" where
  "deliver i st =
     (let st1 = (if hotkey_pause i then toggle_pause st else st)
      in if hotkey_skip i then skip_wait_now st1 else st1)"

text \<open>The next observation: the head of the schedule, or quiet when the schedule is over.\<close>

definition head_input :: "('f, 'w) engine \<Rightarrow> input" where
  "head_input st = (case inputs st of [] \<Rightarrow> quiet | i # r \<Rightarrow> i)"

definition observe :: "('f, 'w) engine \<Rightarrow> ('f, 'w) engine" where
  "observe st = deliver (head_input st) (st\<lparr>inputs := tl (inputs st)\<rparr>)"

text \<open>\<open>_poll_hotkeys_inline\<close>\<close>

definition poll_hotkeys_inline :: "input \<Rightarrow> ('f, 'w) engine \<Rightarrow> ('f, 'w) engine" where
  "poll_hotkeys_inline i st =
     (case keys i of
        None \<Rightarrow> st
      | Some (ctrl, n, space) \<Rightarrow>
          let st1 = (if ctrl \<and> n then st\<lparr>skip_wait := True\<rparr> else st);
              pressed = (ctrl \<and> space);
              st2 = (if pressed \<and> \<not> last_ctrlspace st1
                     then (toggle_pause st1)\<lparr>last_ctrlspace := True\<rparr> else st1)
          in if \<not> pressed \<and> last_ctrlspace st2 then st2\<lparr>last_ctrlspace := False\<rparr> else st2)"

text \<open>The body of the loop of \<open>_pause_gate\<close>.\<close>

definition pause_body :: "input \<Rightarrow> ('f, 'w) engine \<Rightarrow> ('f, 'w) engine" where
  "pause_body i st =
     (let st1 = sleep 50 (poll_hotkeys_inline i st)
      in if pause_event i
         then info (LogPauseBridge (\<not> paused st1)) (st1\<lparr>paused := \<not> paused st1\<rparr>)
         else st1)"

lemma inputs_info [simp]: "inputs (info m st) = inputs st"
  by (simp add: info_def)

lemma inputs_sleep [simp]: "inputs (sleep n st) = inputs st"
  by (simp add: sleep_def)

lemma inputs_toggle_pause [simp]: "inputs (toggle_pause st) = inputs st"
  by (simp add: toggle_pause_def)

lemma inputs_deliver [simp]: "inputs (deliver i st) = inputs st"
  by (simp add: deliver_def skip_wait_now_def Let_def)

lemma inputs_observe [simp]: "inputs (observe st) = tl (inputs st)"
  by (simp add: observe_def)

lemma inputs_poll [simp]: "inputs (poll_hotkeys_inline i st) = inputs st"
  by (simp add: poll_hotkeys_inline_def Let_def split: option.splits prod.splits)

lemma inputs_pause_body [simp]: "inputs (pause_body i st) = inputs st"
  by (simp add: pause_body_def Let_def)

lemma clock_info [simp]: "clock (info m st) = clock st"
  by (simp add: info_def)

lemma clock_sleep [simp]: "clock (sleep n st) = clock st + n"
  by (simp add: sleep_def)

lemma clock_toggle_pause [simp]: "clock (toggle_pause st) = clock st"
  by (simp add: toggle_pause_def)

lemma clock_deliver [simp]: "clock (deliver i st) = clock st"
  by (simp add: deliver_def skip_wait_now_def Let_def)

lemma clock_observe [simp]: "clock (observe st) = clock st"
  by (simp add: observe_def)

lemma clock_poll [simp]: "clock (poll_hotkeys_inline i st) = clock st"
  by (simp add: poll_hotkeys_inline_def Let_def split: option.splits prod.splits)

lemma clock_pause_body [simp]: "clock (pause_body i st) = clock st + 50"
  by (simp add: pause_body_def Let_def)

text \<open>
  \<open>_pause_gate\<close>: \<open>while self.paused: ...\<close>. Each test of the flag is an observation. When
  the schedule is over and the engine is paused, nothing will end the pause.
\<close>

function pause_gate :: "('f, 'w) engine \<Rightarrow> (('f, 'w) engine, ('f, 'w) engine) result" where
  "pause_gate st =
     (if inputs st = [] then (if paused st then Unfinished else Done st)
      else let st1 = observe st
           in if paused st1 then pause_gate (pause_body (head_input st) st1) else Done st1)"
  by pat_completeness auto
termination
  by (relation "measure (\<lambda>st. length (inputs st))") auto

text \<open>
  \<open>_sleep_ms_interruptible\<close>. \<open>end_ts\<close> is computed once, before the loop; \<open>step\<close> is
  50 ms. One iteration of \<open>while True\<close> is one observation.
\<close>

function sleep_loop :: "int \<Rightarrow> ('f, 'w) engine \<Rightarrow> (('f, 'w) engine, ('f, 'w) engine) result" where
  "sleep_loop end_ts st =
     (let i = head_input st;
          st1 = poll_hotkeys_inline i (observe st)
      in if skip_event i then Done (info LogWaitInterruptedBridge st1)
         else if skip_wait st1 then Done (info LogWaitInterrupted (st1\<lparr>skip_wait := False\<rparr>))
         else if paused st1
         then (if inputs st1 = [] then Unfinished else sleep_loop end_ts (sleep 50 st1))
         else if end_ts \<le> clock st1 then Done st1
         else sleep_loop end_ts
                (sleep (if 50 < end_ts - clock st1 then 50 else end_ts - clock st1) st1))"
  by pat_completeness auto
termination
  apply (relation "measure (\<lambda>(e, st). length (inputs st) + nat (e - clock st))")
    apply (auto simp: Let_def)
  subgoal for e st by (cases "inputs st") auto
  done

definition sleep_ms_interruptible :: "int \<Rightarrow> ('f, 'w) engine \<Rightarrow> (('f, 'w) engine, ('f, 'w) engine) result" where
  "sleep_ms_interruptible total_ms st =
     (if total_ms \<le> 0 then Done st else sleep_loop (clock st + total_ms) st)"

declare pause_gate.simps [simp del]
declare sleep_loop.simps [simp del]

lemma pause_gate_inputs:
  "pause_gate st = Done st1 \<Longrightarrow> length (inputs st1) \<le> length (inputs st)"
proof (induction st rule: pause_gate.induct)
  case (1 st)
  show ?case
  proof (cases "inputs st = []")
    case True
    with "1.prems" show ?thesis
      by (simp add: pause_gate.simps [of st] split: if_splits)
  next
    case False
    show ?thesis
    proof (cases "paused (observe st)")
      case True
      with False "1.prems"
      have "pause_gate (pause_body (head_input st) (observe st)) = Done st1"
        by (simp add: pause_gate.simps [of st])
      from "1.IH" [OF False refl True this] show ?thesis by simp
    next
      case notp: False
      with False "1.prems" show ?thesis
        by (auto simp: pause_gate.simps [of st])
    qed
  qed
qed

lemma pause_gate_clock:
  "pause_gate st = Done st1 \<Longrightarrow> clock st \<le> clock st1"
proof (induction st rule: pause_gate.induct)
  case (1 st)
  show ?case
  proof (cases "inputs st = []")
    case True
    with "1.prems" show ?thesis
      by (simp add: pause_gate.simps [of st] split: if_splits)
  next
    case False
    show ?thesis
    proof (cases "paused (observe st)")
      case True
      with False "1.prems"
      have "pause_gate (pause_body (head_input st) (observe st)) = Done st1"
        by (simp add: pause_gate.simps [of st])
      from "1.IH" [OF False refl True this] show ?thesis by simp
    next
      case notp: False
      with False "1.prems" show ?thesis
        by (auto simp: pause_gate.simps [of st])
    qed
  qed
qed

lemma skip_wait_deliver: "skip_wait st \<Longrightarrow> skip_wait (deliver i st)"
  by (simp add: deliver_def toggle_pause_def skip_wait_now_def info_def Let_def)

lemma skip_wait_observe: "skip_wait st \<Longrightarrow> skip_wait (observe st)"
  by (simp add: observe_def skip_wait_deliver)

lemma skip_wait_poll: "skip_wait st \<Longrightarrow> skip_wait (poll_hotkeys_inline i st)"
  by (simp add: poll_hotkeys_inline_def toggle_pause_def info_def Let_def
           split: option.splits prod.splits)

lemma skip_wait_pause_body: "skip_wait st \<Longrightarrow> skip_wait (pause_body i st)"
  by (simp add: pause_body_def sleep_def info_def Let_def skip_wait_poll)

lemma pause_gate_skip_wait:
  "pause_gate st = Done st1 \<Longrightarrow> skip_wait st \<Longrightarrow> skip_wait st1"
proof (induction st rule: pause_gate.induct)
  case (1 st)
  show ?case
  proof (cases "inputs st = []")
    case True
    with "1.prems" show ?thesis
      by (simp add: pause_gate.simps [of st] split: if_splits)
  next
    case False
    show ?thesis
    proof (cases "paused (observe st)")
      case True
      with False "1.prems"
      have "pause_gate (pause_body (head_input st) (observe st)) = Done st1"
        by (simp add: pause_gate.simps [of st])
      from "1.IH" [OF False refl True this] "1.prems" show ?thesis
        by (simp add: skip_wait_pause_body skip_wait_observe)
    next
      case notp: False
      with False "1.prems" show ?thesis
        by (auto simp: pause_gate.simps [of st] skip_wait_observe)
    qed
  qed
qed

text \<open>
  The polling loops of \<open>handle_voice_event\<close>. \<open>ge\<close> tells whether the daemon has
  \<open>get_event\<close> (first loop) or only the two queues (second loop). \<open>get_event\<close> is asked
  with a timeout of 200 ms, which pass when it has nothing to return; the second loop
  sleeps 50 ms at the end of an iteration.
\<close>

definition voice_probe :: "bool \<Rightarrow> string \<Rightarrow> input \<Rightarrow> (string \<times> string) option" where
  "voice_probe ge want i =
     (if ge
      then (case voice_any i of
              None \<Rightarrow> None
            | Some (ty, tx) \<Rightarrow> if want = ''any'' \<or> want = ty then Some (tx, ty) else None)
      else (case (if want = ''any'' \<or> want = ''command'' then voice_command i else None) of
              Some tx \<Rightarrow> Some (tx, ''command'')
            | None \<Rightarrow>
                (case (if want = ''any'' \<or> want = ''query'' then voice_query i else None) of
                   Some tx \<Rightarrow> Some (tx, ''query'')
                 | None \<Rightarrow> None)))"

definition voice_listen :: "bool \<Rightarrow> ('f, 'w) engine \<Rightarrow> ('f, 'w) engine" where
  "voice_listen ge st =
     (if ge \<and> voice_any (head_input st) = None then sleep 200 (observe st) else observe st)"

definition past :: "int option \<Rightarrow> ('f, 'w) engine \<Rightarrow> bool" where
  "past deadline st = (case deadline of None \<Rightarrow> False | Some dl \<Rightarrow> dl < clock st)"

lemma observe_quiet: "inputs st = [] \<Longrightarrow> observe st = st"
  by (simp add: observe_def head_input_def deliver_def quiet_def)

lemma inputs_voice_listen [simp]: "inputs (voice_listen ge st) = tl (inputs st)"
  by (simp add: voice_listen_def)

lemma clock_voice_listen: "clock st \<le> clock (voice_listen ge st)"
  by (simp add: voice_listen_def)

lemma voice_probe_quiet: "voice_probe ge want quiet = None"
  by (simp add: voice_probe_def quiet_def)

function voice_loop ::
  "bool \<Rightarrow> string \<Rightarrow> int option \<Rightarrow> ('f, 'w) engine
   \<Rightarrow> (('f, 'w) engine \<times> string \<times> string, ('f, 'w) engine) result" where
  "voice_loop ge want deadline st =
     (case pause_gate st of
        Unfinished \<Rightarrow> Unfinished
      | Raised e s \<Rightarrow> Raised e s
      | Done st1 \<Rightarrow>
          if skip_wait st1
          then Done (info LogVoiceInterrupted (st1\<lparr>skip_wait := False\<rparr>), [], [])
          else (case voice_probe ge want (head_input st1) of
                  Some (tx, ty) \<Rightarrow> Done (voice_listen ge st1, tx, ty)
                | None \<Rightarrow>
                    if past deadline (voice_listen ge st1) then Done (voice_listen ge st1, [], [])
                    else if deadline = None \<and> tl (inputs st1) = []
                            \<and> \<not> skip_wait (voice_listen ge st1)
                    then Unfinished
                    else voice_loop ge want deadline
                           (if ge then voice_listen ge st1 else sleep 50 (voice_listen ge st1))))"
  by pat_completeness auto


lemma skip_wait_sleep [simp]: "skip_wait (sleep n st) = skip_wait st"
  by (simp add: sleep_def)

termination voice_loop
proof (relation "measure (\<lambda>(ge, want, dl, st).
          2 * length (inputs st) + (if skip_wait st then 0 else 1)
          + (case dl of None \<Rightarrow> 0 | Some d \<Rightarrow> nat (d + 1 - clock st)))", goal_cases)
  case 1
  show ?case by simp
next
  case (2 ge want deadline st st1)
  let ?v = "voice_listen ge st1"
  let ?n = "if ge then ?v else sleep 50 ?v"
  have len: "length (inputs st1) \<le> length (inputs st)"
    using pause_gate_inputs "2"(1) by blast
  have clk: "clock st \<le> clock st1"
    using pause_gate_clock "2"(1) by blast
  have nsk: "\<not> skip_wait st"
    using pause_gate_skip_wait "2"(1) "2"(2) by blast
  have clkv: "clock st1 \<le> clock ?v"
    by (rule clock_voice_listen)
  show ?case
  proof (cases "inputs st1 = []")
    case True
    then have v: "?v = (if ge then sleep 200 st1 else st1)"
      by (simp add: voice_listen_def observe_quiet head_input_def quiet_def)
    then have skv: "\<not> skip_wait ?v"
      using "2"(2) by simp
    with "2"(5) True obtain d where dl: "deadline = Some d"
      by (cases deadline) auto
    with "2"(4) have le: "clock ?v \<le> d"
      by (simp add: past_def)
    have "nat (d + 1 - clock ?n) < nat (d + 1 - clock st)"
      using le clk v by (auto split: if_splits)
    then show ?thesis
      using nsk skv dl True by (auto split: if_splits)
  next
    case False
    then have "length (inputs ?n) < length (inputs st1)"
      by (cases "inputs st1") auto
    moreover have "clock st \<le> clock ?n"
      using clk clkv by auto
    ultimately show ?thesis
      using nsk len by (cases deadline) (auto split: if_splits)
  qed
qed

declare voice_loop.simps [simp del]

section \<open>The interpreter\<close>

type_synonym ('f, 'w) run = "(('f, 'w) engine, ('f, 'w) engine) result"

text \<open>\<open>_delays\<close>: a fixed delay, then a jittered one; a number that does not parse is skipped.\<close>

definition delays :: "('f, 'w) host \<Rightarrow> node \<Rightarrow> ('f, 'w) engine \<Rightarrow> ('f, 'w) run" where
  "delays h node st =
     bind (case get_nonempty node ''delay_fixed'' of
             None \<Rightarrow> Done st
           | Some df \<Rightarrow>
               (case int_of_str h df of
                  None \<Rightarrow> Done st
                | Some n \<Rightarrow> sleep_ms_interruptible n st))
       (\<lambda>st1. case get_nonempty node ''delay_ms'' of
                 None \<Rightarrow> Done st1
               | Some dm \<Rightarrow>
                   (case int_of_str h dm of
                      None \<Rightarrow> Done st1
                    | Some n \<Rightarrow>
                        (case uniform_ms h n (world st1) of
                           (j, w) \<Rightarrow> sleep_ms_interruptible j (st1\<lparr>world := w\<rparr>))))"

text \<open>\<open>_ensure_voice\<close>\<close>

definition truthy :: "string \<Rightarrow> bool" where
  "truthy s \<longleftrightarrow> lower (strip s) \<in> set [''1'', ''true'', ''yes'']"

definition ensure_voice :: "('f, 'w) host \<Rightarrow> ('f, 'w) engine \<Rightarrow> ('f, 'w) engine" where
  "ensure_voice h st =
     (if voice st \<noteq> None then st
      else if \<not> (truthy (case variables st ''VOICE_ENABLED'' of
                             None \<Rightarrow> ''0'' | Some v \<Rightarrow> py_str h v)
                   \<or> truthy (env_voice h (world st)))
      then st
      else (case voice_start h
                   (case variables st ''VOICE_DEVICE'' of
                      None \<Rightarrow> None
                    | Some v \<Rightarrow>
                        if v \<noteq> VNone \<and> strip (py_str h v) \<noteq> [] then py_int h v else None)
                   (world st) of
              (r, w) \<Rightarrow>
                info (LogVoice (if r = None then ''not started'' else ''started''))
                  (st\<lparr>voice := r, world := w\<rparr>)))"

subsection \<open>Loops over children\<close>

text \<open>
  The handlers below take the dispatcher \<open>self._exec_node\<close> as the argument \<open>ex\<close>.
  \<open>exec_children\<close> is \<open>for child in list(func): self._exec_node(child)\<close>;
  \<open>exec_gated\<close> is the same loop with \<open>self._pause_gate()\<close> before each child.
\<close>

fun exec_children ::
  "(node \<Rightarrow> ('f, 'w) engine \<Rightarrow> ('f, 'w) run) \<Rightarrow> node list \<Rightarrow> ('f, 'w) engine \<Rightarrow> ('f, 'w) run" where
  "exec_children ex [] st = Done st"
| "exec_children ex (c # cs) st = bind (ex c st) (exec_children ex cs)"

fun exec_gated ::
  "(node \<Rightarrow> ('f, 'w) engine \<Rightarrow> ('f, 'w) run) \<Rightarrow> node list \<Rightarrow> ('f, 'w) engine \<Rightarrow> ('f, 'w) run" where
  "exec_gated ex [] st = Done st"
| "exec_gated ex (c # cs) st =
     bind (pause_gate st) (\<lambda>st1. bind (ex c st1) (exec_gated ex cs))"

subsection \<open>\<open>handle_set\<close>\<close>

definition set_attr ::
  "('f, 'w) host \<Rightarrow> string \<Rightarrow> string \<Rightarrow> ('f, 'w) engine \<Rightarrow> ('f, 'w) engine" where
  "set_attr h k v st =
     (let expr = substitute_vars h (Some v) (variables st)
      in case safe_eval h expr (variables st) (world st) of
           (r, w) \<Rightarrow>
             (let val = (case r of None \<Rightarrow> VStr expr | Some x \<Rightarrow> x)
              in (info (LogSet k val) (st\<lparr>world := w\<rparr>))
                   \<lparr>variables := (variables st)(k \<mapsto> val)\<rparr>))"

fun set_attrs ::
  "('f, 'w) host \<Rightarrow> (string \<times> string) list \<Rightarrow> ('f, 'w) engine \<Rightarrow> ('f, 'w) engine" where
  "set_attrs h [] st = st"
| "set_attrs h ((k, v) # kvs) st =
     set_attrs h kvs
       (if k \<in> set [''delay_fixed'', ''delay_ms''] then st else set_attr h k v st)"

definition handle_set :: "('f, 'w) host \<Rightarrow> node \<Rightarrow> ('f, 'w) engine \<Rightarrow> ('f, 'w) run" where
  "handle_set h node st = delays h node (set_attrs h (attrib node) st)"

subsection \<open>\<open>handle_if\<close>\<close>

text \<open>
  The condition: \<open>bool(eval(cond_expanded.strip() or "False", {"__builtins__": {}}, {}))\<close>,
  and \<open>False\<close> on any exception. The result is the truth value, whether the evaluation
  failed, and the host's new state.
\<close>

definition eval_cond ::
  "('f, 'w) host \<Rightarrow> string \<Rightarrow> 'w \<Rightarrow> bool \<times> bool \<times> 'w" where
  "eval_cond h cond_expanded w =
     (case py_eval h (if strip cond_expanded = [] then ''False'' else strip cond_expanded)
             None w of
        (None, w1) \<Rightarrow> (False, True, w1)
      | (Some v, w1) \<Rightarrow> (py_bool h v, False, w1))"

text \<open>The loop over the children, with its flag \<open>in_else\<close>.\<close>

fun if_loop ::
  "(node \<Rightarrow> ('f, 'w) engine \<Rightarrow> ('f, 'w) run) \<Rightarrow> bool \<Rightarrow> bool \<Rightarrow> node list
   \<Rightarrow> ('f, 'w) engine \<Rightarrow> ('f, 'w) run" where
  "if_loop ex res in_else [] st = Done st"
| "if_loop ex res in_else (child # cs) st =
     (case tag_of child of
        None \<Rightarrow> if_loop ex res in_else cs st
      | Some t \<Rightarrow>
          if lower t = ''else'' then if_loop ex res True cs st
          else if (res \<and> \<not> in_else) \<or> (\<not> res \<and> in_else)
          then bind (ex child st) (if_loop ex res in_else cs)
          else if_loop ex res in_else cs st)"

definition handle_if ::
  "('f, 'w) host \<Rightarrow> (node \<Rightarrow> ('f, 'w) engine \<Rightarrow> ('f, 'w) run) \<Rightarrow> node
   \<Rightarrow> ('f, 'w) engine \<Rightarrow> ('f, 'w) run" where
  "handle_if h ex node st =
     (let cond_expanded =
            substitute_vars h
              (Some (case get_attr node ''cond'' of None \<Rightarrow> [] | Some c \<Rightarrow> c)) (variables st)
      in case eval_cond h cond_expanded (world st) of
           (res, failed, w) \<Rightarrow>
             if_loop ex res False (children node)
               (info (if failed then LogIfError cond_expanded else LogIf cond_expanded res)
                  (st\<lparr>world := w\<rparr>)))"

subsection \<open>\<open>handle_check\<close>\<close>

text \<open>\<open>str(actual)\<close> for \<open>actual = self.variables.get(k)\<close>\<close>

definition str_actual :: "('f, 'w) host \<Rightarrow> 'f pyval option \<Rightarrow> string" where
  "str_actual h a = (case a of None \<Rightarrow> ''None'' | Some v \<Rightarrow> py_str h v)"

text \<open>
  The comparison of one attribute. With a tolerance: \<open>exp = float(_safe_eval(...))\<close>,
  \<open>act = float(actual)\<close>, \<open>ok = abs(exp-act) <= tol\<close>, and \<open>ok = False\<close> on any exception.
  Without: \<open>ok = str(actual) == expected_raw\<close>.
\<close>

definition within_tol ::
  "('f, 'w) host \<Rightarrow> 'f \<Rightarrow> 'f pyval option \<Rightarrow> 'f pyval option \<Rightarrow> bool" where
  "within_tol h t ev actual =
     (case ev of
        None \<Rightarrow> False
      | Some e \<Rightarrow>
          (case py_float h e of
             None \<Rightarrow> False
           | Some exp \<Rightarrow>
               (case actual of
                  None \<Rightarrow> False
                | Some a \<Rightarrow>
                    (case py_float h a of
                       None \<Rightarrow> False
                     | Some act \<Rightarrow> float_le h (float_abs h (float_sub h exp act)) t))))"

definition check_one ::
  "('f, 'w) host \<Rightarrow> 'f option \<Rightarrow> string \<Rightarrow> string \<Rightarrow> ('f, 'w) engine
   \<Rightarrow> bool \<times> ('f, 'w) engine" where
  "check_one h tol k v st =
     (let expected_raw = substitute_vars h (Some v) (variables st);
          actual = variables st k
      in case tol of
           Some t \<Rightarrow>
             (case safe_eval h expected_raw (variables st) (world st) of
                (r, w) \<Rightarrow> (within_tol h t r actual, st\<lparr>world := w\<rparr>))
         | None \<Rightarrow> (str_actual h actual = expected_raw, st))"

definition check_message :: "('f, 'w) host \<Rightarrow> string \<Rightarrow> string \<Rightarrow> ('f, 'w) engine \<Rightarrow> string" where
  "check_message h k v st =
     ''Check failed for '' @ k @ '': actual='' @ str_actual h (variables st k)
       @ '', expected='' @ substitute_vars h (Some v) (variables st)"

fun check_attrs ::
  "('f, 'w) host \<Rightarrow> 'f option \<Rightarrow> (string \<times> string) list \<Rightarrow> ('f, 'w) engine \<Rightarrow> ('f, 'w) run" where
  "check_attrs h tol [] st = Done st"
| "check_attrs h tol ((k, v) # kvs) st =
     (if k \<in> set [''delay_fixed'', ''delay_ms'', ''tol'', ''comment'']
      then check_attrs h tol kvs st
      else (case check_one h tol k v st of
              (ok, st1) \<Rightarrow>
                (let st2 = info (LogCheck k (variables st k)
                                   (substitute_vars h (Some v) (variables st)) tol ok) st1
                 in if \<not> ok then Raised (AssertionError (check_message h k v st)) st2
                    else check_attrs h tol kvs st2)))"

definition handle_check :: "('f, 'w) host \<Rightarrow> node \<Rightarrow> ('f, 'w) engine \<Rightarrow> ('f, 'w) run" where
  "handle_check h node st =
     (case get_nonempty node ''tol'' of
        None \<Rightarrow> bind (check_attrs h None (attrib node) st) (delays h node)
      | Some ts \<Rightarrow>
          (case float_of_str h ts of
             None \<Rightarrow>
               Raised (ValueError (''could not convert string to float: '' @ [CHR 0x27] @ ts
                                     @ [CHR 0x27])) st
           | Some t \<Rightarrow> bind (check_attrs h (Some t) (attrib node) st) (delays h node)))"

subsection \<open>\<open>handle_foreach\<close>\<close>

text \<open>\<open>[s for s in re.split(r"[\r\n]+", raw) if s.strip()]\<close>\<close>

fun split_on :: "(char \<Rightarrow> bool) \<Rightarrow> string \<Rightarrow> string list" where
  "split_on p [] = [[]]"
| "split_on p (c # cs) =
     (if p c then [] # split_on p cs
      else (case split_on p cs of
              [] \<Rightarrow> [[c]]
            | x # xs \<Rightarrow> (c # x) # xs))"

definition nonblank_lines :: "string \<Rightarrow> string list" where
  "nonblank_lines s =
     filter (\<lambda>p. strip p \<noteq> []) (split_on (\<lambda>c. c = CHR 0x0A \<or> c = CHR 0x0D) s)"

text \<open>The list of a \<open>foreach\<close>, before the shuffle: \<open>None\<close> is the \<open>TypeError\<close> of \<open>list(data)\<close>.\<close>

definition foreach_data :: "('f, 'w) host \<Rightarrow> string \<Rightarrow> ('f, 'w) engine \<Rightarrow> 'f pyval" where
  "foreach_data h list_attr st =
     (case variables st list_attr of
        Some v \<Rightarrow> v
      | None \<Rightarrow>
          VList (map VStr (nonblank_lines (substitute_vars h (Some list_attr) (variables st)))))"

fun to_items :: "'f pyval \<Rightarrow> 'f pyval list option" where
  "to_items (VStr s) = Some (map VStr (nonblank_lines s))"
| "to_items (VList xs) = Some xs"
| "to_items v = None"

text \<open>The three assignments at the head of the loop body, in the order of the source.\<close>

definition bind_item ::
  "string \<Rightarrow> nat \<Rightarrow> 'f pyval \<Rightarrow> ('f, 'w) engine \<Rightarrow> ('f, 'w) engine" where
  "bind_item var_name idx val st =
     st\<lparr>variables :=
          (variables st)(var_name \<mapsto> val, ''index'' \<mapsto> VInt (int idx), ''arg0'' \<mapsto> val)\<rparr>"

fun foreach_loop ::
  "(node \<Rightarrow> ('f, 'w) engine \<Rightarrow> ('f, 'w) run) \<Rightarrow> string \<Rightarrow> node list \<Rightarrow> nat \<Rightarrow> 'f pyval list
   \<Rightarrow> ('f, 'w) engine \<Rightarrow> ('f, 'w) run" where
  "foreach_loop ex var_name body idx [] st = Done st"
| "foreach_loop ex var_name body idx (val # vals) st =
     bind (pause_gate st)
       (\<lambda>st1. bind (exec_gated ex body (bind_item var_name idx val st1))
                 (foreach_loop ex var_name body (Suc idx) vals))"

definition or_default :: "string option \<Rightarrow> string \<Rightarrow> string" where
  "or_default v d = (case v of None \<Rightarrow> d | Some x \<Rightarrow> x)"

text \<open>
  The items of a \<open>foreach\<close> as the loop sees them (after the optional shuffle), with the
  host's state after the shuffle.
\<close>

definition foreach_items ::
  "('f, 'w) host \<Rightarrow> node \<Rightarrow> ('f, 'w) engine \<Rightarrow> ('f pyval list \<times> 'w) option" where
  "foreach_items h node st =
     (case to_items (foreach_data h (or_default (get_nonempty node ''list'') []) st) of
        None \<Rightarrow> None
      | Some items \<Rightarrow>
          if or_default (get_attr node ''random_shuffle'') ''0'' \<in> set [''1'', ''true'', ''yes'']
          then Some (shuffle h items (world st))
          else Some (items, world st))"

definition handle_foreach ::
  "('f, 'w) host \<Rightarrow> (node \<Rightarrow> ('f, 'w) engine \<Rightarrow> ('f, 'w) run) \<Rightarrow> node
   \<Rightarrow> ('f, 'w) engine \<Rightarrow> ('f, 'w) run" where
  "handle_foreach h ex node st =
     (let func_name = or_default (get_nonempty node ''do'') [];
          var_name = or_default (get_nonempty node ''var'') ''item''
      in if func_name = [] then Done st
         else (case foreach_items h node st of
                 None \<Rightarrow> Raised TypeError st
               | Some (items, w) \<Rightarrow>
                   (case functions st func_name of
                      None \<Rightarrow>
                        Raised (ValueError (''Unknown function in foreach: '' @ func_name))
                          (st\<lparr>world := w\<rparr>)
                    | Some func \<Rightarrow>
                        bind (foreach_loop ex var_name (children func) 0 items (st\<lparr>world := w\<rparr>))
                          (delays h node))))"

subsection \<open>\<open>handle_repeat\<close>\<close>

text \<open>
  The count: \<open>int(_safe_eval(_substitute_vars(expr, ...), ...))\<close>, \<open>0\<close> on any exception,
  then \<open>max(0, n)\<close>.
\<close>

definition repeat_count :: "('f, 'w) host \<Rightarrow> node \<Rightarrow> ('f, 'w) engine \<Rightarrow> int \<times> 'w" where
  "repeat_count h node st =
     (let expr = (case get_nonempty node ''times'' of
                    Some x \<Rightarrow> x
                  | None \<Rightarrow> or_default (get_nonempty node ''count'') ''0'')
      in case safe_eval h (substitute_vars h (Some expr) (variables st)) (variables st) (world st) of
           (r, w) \<Rightarrow>
             (max 0 (case r of
                       None \<Rightarrow> 0
                     | Some v \<Rightarrow> (case py_int h v of None \<Rightarrow> 0 | Some n \<Rightarrow> n)), w))"

fun repeat_loop ::
  "(node \<Rightarrow> ('f, 'w) engine \<Rightarrow> ('f, 'w) run) \<Rightarrow> nat \<Rightarrow> node list
   \<Rightarrow> ('f, 'w) engine \<Rightarrow> ('f, 'w) run" where
  "repeat_loop ex 0 cs st = Done st"
| "repeat_loop ex (Suc n) cs st = bind (exec_gated ex cs st) (repeat_loop ex n cs)"

definition handle_repeat ::
  "('f, 'w) host \<Rightarrow> (node \<Rightarrow> ('f, 'w) engine \<Rightarrow> ('f, 'w) run) \<Rightarrow> node
   \<Rightarrow> ('f, 'w) engine \<Rightarrow> ('f, 'w) run" where
  "handle_repeat h ex node st =
     (case repeat_count h node st of
        (n, w) \<Rightarrow>
          bind (repeat_loop ex (nat n) (children node) (info (LogRepeat (nat n)) (st\<lparr>world := w\<rparr>)))
            (delays h node))"

subsection \<open>\<open>handle_call\<close>\<close>

fun bind_args ::
  "('f, 'w) host \<Rightarrow> (string \<times> string) list \<Rightarrow> ('f, 'w) engine \<Rightarrow> ('f, 'w) engine" where
  "bind_args h [] st = st"
| "bind_args h ((k, v) # kvs) st =
     bind_args h kvs
       (if startswith k ''arg''
        then st\<lparr>variables := (variables st)(k \<mapsto> VStr (substitute_vars h (Some v) (variables st)))\<rparr>
        else st)"

definition handle_call ::
  "('f, 'w) host \<Rightarrow> (node \<Rightarrow> ('f, 'w) engine \<Rightarrow> ('f, 'w) run) \<Rightarrow> node
   \<Rightarrow> ('f, 'w) engine \<Rightarrow> ('f, 'w) run" where
  "handle_call h ex node st =
     (case get_nonempty node ''name'' of
        None \<Rightarrow>
          Raised (ValueError (''Unknown function: '' @ or_default (get_attr node ''name'') ''None'')) st
      | Some name \<Rightarrow>
          (case functions st name of
             None \<Rightarrow> Raised (ValueError (''Unknown function: '' @ name)) st
           | Some func \<Rightarrow>
               bind (exec_children ex (children func)
                       (info (LogCall name) (bind_args h (attrib node) st)))
                 (delays h node)))"

subsection \<open>\<open>handle_wait\<close>, the voice directives, the collaborator directives\<close>

definition handle_wait :: "('f, 'w) host \<Rightarrow> node \<Rightarrow> ('f, 'w) engine \<Rightarrow> ('f, 'w) run" where
  "handle_wait h node st =
     (case int_of_str h (or_default (get_attr node ''ms'') ''0'') of
        None \<Rightarrow> Raised (ValueError ''invalid literal for int()'') st
      | Some ms \<Rightarrow> sleep_ms_interruptible ms (info (LogWait ms) st))"

definition set_voice_out ::
  "string \<Rightarrow> string \<Rightarrow> string \<Rightarrow> ('f, 'w) engine \<Rightarrow> ('f, 'w) engine" where
  "set_voice_out out text typ st =
     st\<lparr>variables := (variables st)(out \<mapsto> VStr text, out @ ''_type'' \<mapsto> VStr typ)\<rparr>"

definition handle_voice_event :: "('f, 'w) host \<Rightarrow> node \<Rightarrow> ('f, 'w) engine \<Rightarrow> ('f, 'w) run" where
  "handle_voice_event h node st =
     (let st0 = ensure_voice h st;
          want = lower (or_default (get_nonempty node ''type'') ''any'');
          out = or_default (get_nonempty node ''out'') ''VOICE_TEXT''
      in case int_of_str h (or_default (get_attr node ''wait'') ''0'') of
           None \<Rightarrow> Raised (ValueError ''invalid literal for int()'') st0
         | Some wait_ms \<Rightarrow>
             (case voice st0 of
                None \<Rightarrow> delays h node (set_voice_out out [] [] st0)
              | Some ge \<Rightarrow>
                  bind (voice_loop ge want
                          (if wait_ms \<noteq> 0 then Some (clock st0 + wait_ms) else None) st0)
                    (\<lambda>(st1, text, typ).
                        delays h node
                          (info (LogVoiceEvent out text typ) (set_voice_out out text typ st1)))))"

text \<open>
  A collaborator directive: the host says what it does. \<open>voice_poll\<close> first makes sure of
  the voice daemon; without a daemon it assigns two empty strings.
\<close>

definition assign_all ::
  "(string \<times> 'f pyval) list \<Rightarrow> ('f, 'w) engine \<Rightarrow> ('f, 'w) engine" where
  "assign_all kvs st = st\<lparr>variables := fold (\<lambda>(k, v) m. m(k \<mapsto> v)) kvs (variables st)\<rparr>"

definition handle_action :: "('f, 'w) host \<Rightarrow> node \<Rightarrow> ('f, 'w) engine \<Rightarrow> ('f, 'w) run" where
  "handle_action h node st =
     (case action h node (variables st) (world st) of
        (Fails e, w) \<Rightarrow> Raised e (st\<lparr>world := w\<rparr>)
      | (Assigns kvs d, w) \<Rightarrow>
          if d then delays h node (assign_all kvs (st\<lparr>world := w\<rparr>))
          else Done (assign_all kvs (st\<lparr>world := w\<rparr>)))"

definition handle_voice_poll :: "('f, 'w) host \<Rightarrow> node \<Rightarrow> ('f, 'w) engine \<Rightarrow> ('f, 'w) run" where
  "handle_voice_poll h node st =
     (let st0 = ensure_voice h st;
          out_cmd = or_default (get_nonempty node ''out_cmd'') ''VOICE_CMD'';
          out_query = or_default (get_nonempty node ''out_query'') ''VOICE_QUERY''
      in if voice st0 = None
         then delays h node
                (info (LogVoicePoll out_cmd [] out_query [])
                   (assign_all [(out_cmd, VStr []), (out_query, VStr [])] st0))
         else handle_action h node st0)"

subsection \<open>The dispatcher and the run\<close>

text \<open>
  \<open>_exec_node\<close>. The first argument after the host bounds the nesting of dispatches
  (a function body may call itself): \<open>exec_node h (Suc d)\<close> hands \<open>exec_node h d\<close> to the
  handlers as their \<open>self._exec_node\<close>.
\<close>

definition dispatch ::
  "('f, 'w) host \<Rightarrow> (node \<Rightarrow> ('f, 'w) engine \<Rightarrow> ('f, 'w) run) \<Rightarrow> node
   \<Rightarrow> ('f, 'w) engine \<Rightarrow> ('f, 'w) run" where
  "dispatch h ex node st =
     (let tagl = lower (or_default (tag_of node) [])
      in if tagl = ''set'' then handle_set h node st
         else if tagl = ''if'' then handle_if h ex node st
         else if tagl = ''voice_poll'' then handle_voice_poll h node st
         else if tagl = ''check'' then handle_check h node st
         else if tagl \<in> set [''type'', ''click'', ''hotkey'', ''shell'', ''focus'', ''llmcall'']
         then handle_action h node st
         else if tagl = ''foreach'' then handle_foreach h ex node st
         else if tagl = ''func'' then Done st
         else if tagl = ''call'' then handle_call h ex node st
         else if tagl = ''repeat'' then handle_repeat h ex node st
         else if tagl = ''wait'' then handle_wait h node st
         else if tagl = ''extnode'' then handle_action h node st
         else if tagl = ''voice_event'' then handle_voice_event h node st
         else Done st)"

primrec exec_node ::
  "('f, 'w) host \<Rightarrow> nat \<Rightarrow> node \<Rightarrow> ('f, 'w) engine \<Rightarrow> ('f, 'w) run" where
  "exec_node h 0 node st = Unfinished"
| "exec_node h (Suc d) node st = bind (pause_gate st) (dispatch h (exec_node h d) node)"

text \<open>\<open>run\<close>: the top-level nodes in order, function definitions and comments skipped.\<close>

fun run_loop ::
  "(node \<Rightarrow> ('f, 'w) engine \<Rightarrow> ('f, 'w) run) \<Rightarrow> node list \<Rightarrow> ('f, 'w) engine \<Rightarrow> ('f, 'w) run" where
  "run_loop ex [] st = Done st"
| "run_loop ex (node # ns) st =
     (let tag = or_default (tag_of node) []
      in if lower tag = ''func'' \<or> tag = [] then run_loop ex ns st
         else bind (ex node st) (run_loop ex ns))"

definition run :: "('f, 'w) host \<Rightarrow> nat \<Rightarrow> ('f, 'w) engine \<Rightarrow> ('f, 'w) run" where
  "run h d st = run_loop (exec_node h d) (children (tree st)) st"

section \<open>A small host for worked examples\<close>

text \<open>
  A host in which every collaborator is absent and nothing is random, for evaluating the
  engine on concrete scripts. Its floats are exact decimals \<open>(m, k)\<close>, standing for
  \<open>m / 10^k\<close>; its \<open>eval\<close> knows the literals \<open>True\<close>, \<open>False\<close>, \<open>None\<close>, decimal
  integers and decimal fractions, and raises on everything else. On the inputs used below
  Python computes the same values.
\<close>

type_synonym dec = "int \<times> nat"

definition digit_val :: "char \<Rightarrow> nat option" where
  "digit_val c = (if c \<in> set ''0123456789'' then Some ((of_char c :: nat) - 48) else None)"

fun parse_digits :: "nat \<Rightarrow> string \<Rightarrow> nat option" where
  "parse_digits acc [] = Some acc"
| "parse_digits acc (c # cs) =
     (case digit_val c of None \<Rightarrow> None | Some d \<Rightarrow> parse_digits (10 * acc + d) cs)"

definition parse_nat :: "string \<Rightarrow> nat option" where
  "parse_nat s = (if s = [] then None else parse_digits 0 s)"

definition signed :: "(string \<Rightarrow> 'a option) \<Rightarrow> ('a \<Rightarrow> 'a) \<Rightarrow> string \<Rightarrow> 'a option" where
  "signed p neg s =
     (case s of
        [] \<Rightarrow> None
      | c # r \<Rightarrow>
          if c = CHR ''-'' then map_option neg (p r)
          else if c = CHR ''+'' then p r
          else p s)"

definition parse_int :: "string \<Rightarrow> int option" where
  "parse_int s = signed (\<lambda>r. map_option int (parse_nat r)) uminus s"

definition parse_frac :: "string \<Rightarrow> dec option" where
  "parse_frac s =
     (let ip = takeWhile (\<lambda>c. c \<noteq> CHR ''.'') s;
          rest = dropWhile (\<lambda>c. c \<noteq> CHR ''.'') s
      in case parse_nat ip of
           None \<Rightarrow> None
         | Some n \<Rightarrow>
             if rest = [] then Some (int n, 0)
             else (case parse_nat (tl rest) of
                     None \<Rightarrow> None
                   | Some f \<Rightarrow> Some (int (n * 10 ^ length (tl rest) + f), length (tl rest))))"

definition parse_dec :: "string \<Rightarrow> dec option" where
  "parse_dec s = signed parse_frac (\<lambda>(m, k). (- m, k)) s"

definition dec_sub :: "dec \<Rightarrow> dec \<Rightarrow> dec" where
  "dec_sub x y =
     (case (x, y) of
        ((a, m), (b, n)) \<Rightarrow> (a * 10 ^ (max m n - m) - b * 10 ^ (max m n - n), max m n))"

definition dec_abs :: "dec \<Rightarrow> dec" where
  "dec_abs x = (case x of (a, m) \<Rightarrow> (\<bar>a\<bar>, m))"

definition dec_le :: "dec \<Rightarrow> dec \<Rightarrow> bool" where
  "dec_le x y = (case (x, y) of ((a, m), (b, n)) \<Rightarrow> a * 10 ^ n \<le> b * 10 ^ m)"

definition dec_trunc :: "dec \<Rightarrow> int option" where
  "dec_trunc x = (case x of (a, m) \<Rightarrow> Some (sgn a * (\<bar>a\<bar> div 10 ^ m)))"

definition str_dec :: "dec \<Rightarrow> string" where
  "str_dec x =
     (case x of
        (a, m) \<Rightarrow>
          (if a < 0 then ''-'' else []) @ str_nat (nat \<bar>a\<bar> div 10 ^ m) @ ''.''
          @ (if m = 0 then ''0''
             else replicate (m - length (str_nat (nat \<bar>a\<bar> mod 10 ^ m))) CHR ''0''
                  @ str_nat (nat \<bar>a\<bar> mod 10 ^ m)))"

fun ex_repr :: "dec pyval \<Rightarrow> string" where
  "ex_repr VNone = ''None''"
| "ex_repr (VBool b) = (if b then ''True'' else ''False'')"
| "ex_repr (VInt i) = str_int i"
| "ex_repr (VFloat f) = str_dec f"
| "ex_repr (VStr s) = [CHR 0x27] @ s @ [CHR 0x27]"
| "ex_repr (VList xs) = ''['' @ concat (map (\<lambda>x. ex_repr x @ '', '') xs) @ '']''"

definition ex_eval :: "string \<Rightarrow> dec vars option \<Rightarrow> unit \<Rightarrow> dec pyval option \<times> unit" where
  "ex_eval expr env w =
     (let s = strip expr
      in (if s = ''True'' then Some (VBool True)
          else if s = ''False'' then Some (VBool False)
          else if s = ''None'' then Some VNone
          else (case parse_int s of
                  Some n \<Rightarrow> Some (VInt n)
                | None \<Rightarrow> map_option VFloat (parse_dec s)), w))"

definition ex_host :: "(dec, unit) host" where
  "ex_host =
     \<lparr> str_float = str_dec,
       str_list = (\<lambda>xs. ex_repr (VList xs)),
       float_of_str = (\<lambda>s. parse_dec (strip s)),
       float_of_int = (\<lambda>n. Some (n, 0)),
       float_sub = dec_sub,
       float_abs = dec_abs,
       float_le = dec_le,
       float_trunc = dec_trunc,
       float_nonzero = (\<lambda>x. fst x \<noteq> 0),
       int_of_str = (\<lambda>s. parse_int (strip s)),
       py_eval = ex_eval,
       shuffle = (\<lambda>xs w. (xs, w)),
       uniform_ms = (\<lambda>n w. (0, w)),
       env_voice = (\<lambda>w. ''0''),
       voice_start = (\<lambda>dev w. (None, w)),
       action = (\<lambda>node vs w. (Assigns [] True, w)) \<rparr>"

text \<open>An engine that has just been built: no variables but the screen size, nothing pending.\<close>

definition ex_engine :: "(string \<rightharpoonup> node) \<Rightarrow> (dec, unit) engine" where
  "ex_engine fs =
     \<lparr> variables = [''SCREEN_W'' \<mapsto> VInt 1920, ''SCREEN_H'' \<mapsto> VInt 1080],
       functions = fs, tree = Element ''program'' [] [] None,
       skip_wait = False, paused = False, last_ctrlspace = False, voice = None,
       log = [], clock = 0, inputs = [], world = () \<rparr>"

section \<open>Vocabulary of the properties\<close>

text \<open>
  An identifier of the placeholder pattern, and a text in which the pattern matches
  nowhere.
\<close>

definition is_ident :: "string \<Rightarrow> bool" where
  "is_ident s = (case s of [] \<Rightarrow> False | c # cs \<Rightarrow> is_ident_start c \<and> list_all is_ident_char cs)"

fun placeholder_free :: "string \<Rightarrow> bool" where
  "placeholder_free [] = True"
| "placeholder_free (c # cs) =
     ((c = CHR ''$'' \<longrightarrow> match_placeholder cs = None) \<and> placeholder_free cs)"

text \<open>
  Vocabulary of the waits. \<open>no_skip\<close>: an observation that requests no skip.
  \<open>paused_time\<close>: the time a wait sleeps in the paused branch of its loop; it runs the
  loop of \<open>sleep_loop\<close> and adds up those slices. \<open>polled\<close>: the engine at the tests of
  an iteration of the wait loop. \<open>pause_excluded\<close>: the wait lasted the requested time,
  the paused time not counted.
\<close>

definition no_skip :: "input \<Rightarrow> bool" where
  "no_skip i \<longleftrightarrow>
     \<not> hotkey_skip i \<and> \<not> skip_event i
     \<and> (case keys i of None \<Rightarrow> True | Some (ctrl, n, space) \<Rightarrow> \<not> (ctrl \<and> n))"

function paused_time :: "int \<Rightarrow> ('f, 'w) engine \<Rightarrow> int" where
  "paused_time end_ts st =
     (let i = head_input st;
          st1 = poll_hotkeys_inline i (observe st)
      in if skip_event i then 0
         else if skip_wait st1 then 0
         else if paused st1
         then (if inputs st1 = [] then 0 else 50 + paused_time end_ts (sleep 50 st1))
         else if end_ts \<le> clock st1 then 0
         else paused_time end_ts
                (sleep (if 50 < end_ts - clock st1 then 50 else end_ts - clock st1) st1))"
  by pat_completeness auto
termination
  apply (relation "measure (\<lambda>(e, st). length (inputs st) + nat (e - clock st))")
    apply (auto simp: Let_def)
  subgoal for e st by (cases "inputs st") auto
  done

declare paused_time.simps [simp del]

definition polled :: "('f, 'w) engine \<Rightarrow> ('f, 'w) engine" where
  "polled st = poll_hotkeys_inline (head_input st) (observe st)"

definition pause_excluded :: "int \<Rightarrow> ('f, 'w) engine \<Rightarrow> bool" where
  "pause_excluded total_ms st =
     (case sleep_ms_interruptible total_ms st of
        Done st' \<Rightarrow> total_ms \<le> clock st' - clock st - paused_time (clock st + total_ms) st
      | Raised e s \<Rightarrow> True
      | Unfinished \<Rightarrow> True)"

definition skip_bridge :: input where
  "skip_bridge = quiet\<lparr>hotkey_skip := True, skip_event := True\<rparr>"

definition pause_key :: input where
  "pause_key = quiet\<lparr>hotkey_pause := True\<rparr>"

definition c1_engine :: "(dec, unit) engine" where
  "c1_engine = (ex_engine Map.empty)\<lparr>inputs := [pause_key, quiet, quiet, pause_key]\<rparr>"

definition c4_engine :: "(dec, unit) engine" where
  "c4_engine = (ex_engine Map.empty)\<lparr>skip_wait := True\<rparr>"

definition c4_bridge :: "(dec, unit) engine" where
  "c4_bridge = (ex_engine Map.empty)\<lparr>inputs := [skip_bridge]\<rparr>"

text \<open>
  \<open>same_store\<close>: two engines with the same Variable Store and function table.
\<close>

definition same_store :: "('f, 'w) engine \<Rightarrow> ('f, 'w) engine \<Rightarrow> bool" where
  "same_store st st' \<longleftrightarrow> variables st' = variables st \<and> functions st' = functions st"

definition c7_node :: node where
  "c7_node = Element ''set'' [(''tol'', ''5''), (''comment'', ''hi''), (''delay_ms'', ''0'')] [] None"

definition c3_missing :: node where
  "c3_missing = Element ''call'' [(''name'', ''missing''), (''arg0'', ''zzz'')] [] None"

definition c3_call :: node where
  "c3_call = Element ''call'' [(''name'', ''g''), (''arg0'', ''zzz''), (''arg1'', ''${arg0}!'')] [] None"

definition c3_func :: node where
  "c3_func = Element ''func'' [(''name'', ''g'')] [] None"

text \<open>
  The source of the count of a \<open>repeat\<close>: \<open>node.get("times") or node.get("count") or "0"\<close>,
  substituted.
\<close>

definition repeat_source :: "('f, 'w) host \<Rightarrow> node \<Rightarrow> ('f, 'w) engine \<Rightarrow> string" where
  "repeat_source h node st =
     substitute_vars h
       (Some (case get_nonempty node ''times'' of
                Some x \<Rightarrow> x
              | None \<Rightarrow> or_default (get_nonempty node ''count'') ''0''))
       (variables st)"

definition c6_child :: node where
  "c6_child = Element ''set'' [(''n'', ''1'')] [] None"

definition c6_repeat :: "string \<Rightarrow> node" where
  "c6_repeat count = Element ''repeat'' [(''times'', count)] [c6_child] None"

text \<open>
  The children an \<open>if\<close> executes when its condition is true and when it is false:
  the elements before the first \<open>else\<close> marker, and the elements after it that are not
  \<open>else\<close> markers themselves.
\<close>

definition is_else :: "node \<Rightarrow> bool" where
  "is_else c = (case tag_of c of None \<Rightarrow> False | Some t \<Rightarrow> lower t = ''else'')"

definition then_children :: "node list \<Rightarrow> node list" where
  "then_children kids = filter (\<lambda>c. tag_of c \<noteq> None) (takeWhile (\<lambda>c. \<not> is_else c) kids)"

definition else_children :: "node list \<Rightarrow> node list" where
  "else_children kids =
     filter (\<lambda>c. tag_of c \<noteq> None \<and> \<not> is_else c) (dropWhile (\<lambda>c. \<not> is_else c) kids)"

text \<open>The text that \<open>handle_if\<close> evaluates.\<close>

definition cond_source :: "('f, 'w) host \<Rightarrow> node \<Rightarrow> ('f, 'w) engine \<Rightarrow> string" where
  "cond_source h node st =
     (let c = substitute_vars h (Some (or_default (get_attr node ''cond'') [])) (variables st)
      in if strip c = [] then ''False'' else strip c)"

definition c8_a :: node where
  "c8_a = Element ''set'' [(''a'', ''1'')] [] None"

definition c8_b :: node where
  "c8_b = Element ''set'' [(''b'', ''2'')] [] None"

definition c8_if :: "string \<Rightarrow> node" where
  "c8_if c = Element ''if'' [(''cond'', c)] [c8_a, Comment, Element ''Else'' [] [] None, c8_b] None"

text \<open>The names that the attribute loop of \<open>handle_check\<close> skips.\<close>

definition check_reserved :: "string \<Rightarrow> bool" where
  "check_reserved k \<longleftrightarrow> k \<in> set [''delay_fixed'', ''delay_ms'', ''tol'', ''comment'']"

text \<open>What \<open>handle_check\<close> logs for one attribute.\<close>

definition check_log ::
  "('f, 'w) host \<Rightarrow> 'f option \<Rightarrow> string \<Rightarrow> string \<Rightarrow> ('f, 'w) engine \<Rightarrow> ('f, 'w) engine" where
  "check_log h tol k v st =
     info (LogCheck k (variables st k) (substitute_vars h (Some v) (variables st)) tol
             (fst (check_one h tol k v st)))
       (snd (check_one h tol k v st))"

definition c2_engine :: "(dec, unit) engine" where
  "c2_engine = (ex_engine Map.empty)
     \<lparr>variables := [''SCREEN_W'' \<mapsto> VInt 1920, ''x'' \<mapsto> VFloat (1004, 3)]\<rparr>"

definition c2_check :: "string \<Rightarrow> node" where
  "c2_check expected =
     Element ''check'' [(''x'', expected), (''tol'', ''0.01''), (''comment'', ''close'')] [] None"

definition c2_plain :: node where
  "c2_plain = Element ''check'' [(''SCREEN_W'', ''1920'')] [] None"

definition c2_text :: "(dec, unit) engine" where
  "c2_text = (ex_engine Map.empty)\<lparr>variables := [''x'' \<mapsto> VStr ''abc'']\<rparr>"

definition c2_empty_tol :: "string \<Rightarrow> node" where
  "c2_empty_tol tol = Element ''check'' [(''x'', ''abc''), (''tol'', tol)] [] None"

text \<open>The name of the function and of the per-element variable of a \<open>foreach\<close>.\<close>

definition foreach_func :: "node \<Rightarrow> string" where
  "foreach_func node = or_default (get_nonempty node ''do'') []"

definition foreach_var :: "node \<Rightarrow> string" where
  "foreach_var node = or_default (get_nonempty node ''var'') ''item''"

definition c5_func :: node where
  "c5_func = Element ''func'' [(''name'', ''f'')] [Element ''set'' [(''seen'', ''1'')] [] None] None"

definition c5_node :: "string \<Rightarrow> node" where
  "c5_node var = Element ''foreach'' [(''list'', ''ITEMS''), (''var'', var), (''do'', ''f'')] [] None"

definition c5_engine :: "(dec, unit) engine" where
  "c5_engine = (ex_engine [''f'' \<mapsto> c5_func])
     \<lparr>variables := [''ITEMS'' \<mapsto> VList [VStr ''a'', VStr ''b'', VStr ''c'']]\<rparr>"

definition c10_func :: node where
  "c10_func = Element ''func'' [(''name'', ''f'')]
     [Element ''call'' [(''name'', ''g''), (''arg0'', ''zzz'')] [] None] None"

definition c10_node :: node where
  "c10_node = Element ''foreach'' [(''list'', ''ITEMS''), (''var'', ''x''), (''do'', ''f'')] [] None"

definition c10_engine :: "(dec, unit) engine" where
  "c10_engine = (ex_engine [''f'' \<mapsto> c10_func, ''g'' \<mapsto> Element ''func'' [(''name'', ''g'')] [] None])
     \<lparr>variables := [''ITEMS'' \<mapsto> VList [VStr ''a'', VStr ''b'']]\<rparr>"

definition c10_quiet :: "(dec, unit) engine" where
  "c10_quiet = c5_engine
     \<lparr>variables := [''ITEMS'' \<mapsto> VList [VStr ''a'', VStr ''b'', VStr ''c''],
          ''x'' \<mapsto> VStr ''a'', ''index'' \<mapsto> VInt 0, ''arg0'' \<mapsto> VStr ''a'', ''seen'' \<mapsto> VInt 1,
          ''x'' \<mapsto> VStr ''b'', ''index'' \<mapsto> VInt 1, ''arg0'' \<mapsto> VStr ''b'', ''seen'' \<mapsto> VInt 1,
          ''x'' \<mapsto> VStr ''c'', ''index'' \<mapsto> VInt 2, ''arg0'' \<mapsto> VStr ''c'', ''seen'' \<mapsto> VInt 1],
       log := [LogSet ''seen'' (VInt 1), LogSet ''seen'' (VInt 1), LogSet ''seen'' (VInt 1)]\<rparr>"

section \<open>Substitution\<close>

lemma dollar_not_ident [simp]: "\<not> is_ident_char CHR ''$''" "\<not> is_ident_start CHR ''$''"
  by (simp_all add: is_ident_char_def is_ident_start_def)

lemma close_not_ident [simp]: "\<not> is_ident_char CHR ''}''" "\<not> is_ident_char CHR ''|''"
  by (simp_all add: is_ident_char_def is_ident_start_def)

lemma take_ident_local:
  "\<not> is_ident_char x \<Longrightarrow>
   take_ident (s @ x # r) = map_option (\<lambda>(n, rest). (n, rest @ x # r)) (take_ident s)"
  by (cases s) (auto simp: take_ident_def takeWhile_tail dropWhile_append3 is_ident_char_def)

lemma match_placeholder_local:
  "match_placeholder (cs @ CHR ''$'' # r) =
     map_option (\<lambda>(v, f, rest). (v, f, rest @ CHR ''$'' # r)) (match_placeholder cs)"
proof (cases cs)
  case Nil
  then show ?thesis by (simp add: match_placeholder_def)
next
  case (Cons b r0)
  show ?thesis
  proof (cases "b = CHR ''{''")
    case False
    with Cons show ?thesis by (simp add: match_placeholder_def)
  next
    case True
    show ?thesis
    proof (cases "take_ident r0")
      case None
      with Cons True show ?thesis
        by (simp add: match_placeholder_def take_ident_local)
    next
      case (Some p)
      obtain name r1 where p: "p = (name, r1)" by (cases p)
      show ?thesis
      proof (cases r1)
        case Nil
        with Cons True Some p show ?thesis
          by (simp add: match_placeholder_def take_ident_local)
      next
        case (Cons c r2)
        show ?thesis
        proof (cases "c = CHR ''|''")
          case False
          with \<open>cs = b # r0\<close> True Some p Cons show ?thesis
            by (simp add: match_placeholder_def take_ident_local)
        next
          case bar: True
          show ?thesis
          proof (cases "take_ident r2")
            case None
            with \<open>cs = b # r0\<close> True Some p Cons bar show ?thesis
              by (simp add: match_placeholder_def take_ident_local)
          next
            case (Some q)
            obtain f r3 where q: "q = (f, r3)" by (cases q)
            with \<open>cs = b # r0\<close> True \<open>take_ident r0 = Some p\<close> p Cons bar Some show ?thesis
              by (cases r3) (simp_all add: match_placeholder_def take_ident_local match_close_def)
          qed
        qed
      qed
    qed
  qed
qed

lemma sub_scan_append:
  "match_placeholder r = Some (var, filt, rest) \<Longrightarrow>
   sub_scan h vs (a @ CHR ''$'' # r) = sub_scan h vs a @ repl h vs var filt @ sub_scan h vs rest"
proof (induction h vs a rule: sub_scan.induct)
  case (1 h vs)
  then show ?case by simp
next
  case (2 h vs c cs)
  show ?case
  proof (cases "c = CHR ''$''")
    case False
    with 2 show ?thesis by simp
  next
    case True
    show ?thesis
    proof (cases "match_placeholder cs")
      case None
      with 2 True show ?thesis by (simp add: match_placeholder_local)
    next
      case (Some t)
      obtain v f rs where t: "t = (v, f, rs)" by (cases t)
      with 2 True Some show ?thesis by (simp add: match_placeholder_local)
    qed
  qed
qed


lemma take_ident_ident:
  "is_ident X \<Longrightarrow> \<not> is_ident_char x \<Longrightarrow> take_ident (X @ x # r) = Some (X, x # r)"
  by (cases X) (auto simp: is_ident_def take_ident_def takeWhile_tail dropWhile_append3
       list_all_iff takeWhile_eq_all_conv)

lemma match_plain:
  "is_ident X \<Longrightarrow> match_placeholder (''{'' @ X @ ''}'' @ b) = Some (X, None, b)"
  by (simp add: match_placeholder_def take_ident_ident)

lemma match_filtered:
  "is_ident X \<Longrightarrow> is_ident F \<Longrightarrow>
   match_placeholder (''{'' @ X @ ''|'' @ F @ ''}'' @ b) = Some (X, Some F, b)"
  by (simp add: match_placeholder_def take_ident_ident match_close_def)

lemma ident_no_space: "is_ident_char c \<Longrightarrow> \<not> is_space c"
  by (auto simp: is_ident_char_def is_ident_start_def is_space_def)

lemma dropWhile_none: "xs \<noteq> [] \<Longrightarrow> \<not> P (hd xs) \<Longrightarrow> dropWhile P xs = xs"
  by (cases xs) auto

lemma strip_ident: "is_ident F \<Longrightarrow> strip F = F"
proof -
  assume i: "is_ident F"
  then have ne: "F \<noteq> []" and all: "\<forall>c \<in> set F. is_ident_char c"
    by (auto simp: is_ident_def list_all_iff is_ident_char_def split: list.splits)
  have "\<not> is_space (hd F)" using ne all by (simp add: ident_no_space)
  then have 1: "dropWhile is_space F = F" using ne by (simp add: dropWhile_none)
  have "\<not> is_space (hd (rev F))" using ne all by (simp add: ident_no_space hd_rev)
  then have "dropWhile is_space (rev F) = rev F" using ne by (simp add: dropWhile_none)
  with 1 show ?thesis by (simp add: strip_def)
qed

lemma is_ident_url: "is_ident ''url''"
  by (simp add: is_ident_def is_ident_start_def is_ident_char_def)

lemma sub_scan_free: "placeholder_free t \<Longrightarrow> sub_scan h vs t = t"
  by (induction t) auto

text \<open>
  C9. For every input string and Variable Store, substitution replaces \<open>${X}\<close> with \<open>X\<close>
  unset by the empty string, replaces \<open>${X|url}\<close> by the percent-encoded value of \<open>X\<close>
  (the string form of the value, or the empty string when \<open>X\<close> is unset, encoded as
  \<open>quote_plus\<close> does), treats a filter name that is not recognised as the identity, and
  leaves text without placeholders unchanged. The text \<open>a\<close> before and the text \<open>b\<close>
  after the placeholder are arbitrary and are substituted on their own.
\<close>

theorem substitute_vars_placeholders:
  assumes X: "is_ident X"
  shows "(vs X = None \<longrightarrow>
            substitute_vars h (Some (a @ ''${'' @ X @ ''}'' @ b)) vs
            = substitute_vars h (Some a) vs @ substitute_vars h (Some b) vs)
       \<and> substitute_vars h (Some (a @ ''${'' @ X @ ''|url}'' @ b)) vs
            = substitute_vars h (Some a) vs @ quote_plus (py_str h (get_or_empty vs X))
              @ substitute_vars h (Some b) vs
       \<and> (is_ident F \<and> lower F \<notin> set [''url'', ''urlencode'', ''quote'', ''quote_plus''] \<longrightarrow>
            substitute_vars h (Some (a @ ''${'' @ X @ ''|'' @ F @ ''}'' @ b)) vs
            = substitute_vars h (Some a) vs @ py_str h (get_or_empty vs X)
              @ substitute_vars h (Some b) vs)
       \<and> (placeholder_free t \<longrightarrow> substitute_vars h (Some t) vs = t)"
proof (intro conjI impI)
  assume "vs X = None"
  then have "repl h vs X None = []"
    by (simp add: repl_def get_or_empty_def apply_filter_def strip_def lower_def)
  with sub_scan_append [OF match_plain [OF X], of h vs a b]
  show "substitute_vars h (Some (a @ ''${'' @ X @ ''}'' @ b)) vs
        = substitute_vars h (Some a) vs @ substitute_vars h (Some b) vs"
    by (simp add: substitute_vars_def)
next
  have "repl h vs X (Some ''url'') = quote_plus (py_str h (get_or_empty vs X))"
    by (simp add: repl_def apply_filter_def strip_ident [OF is_ident_url] lower_def lower_char_def)
  with sub_scan_append [OF match_filtered [OF X is_ident_url], of h vs a b]
  show "substitute_vars h (Some (a @ ''${'' @ X @ ''|url}'' @ b)) vs
        = substitute_vars h (Some a) vs @ quote_plus (py_str h (get_or_empty vs X))
          @ substitute_vars h (Some b) vs"
    by (simp add: substitute_vars_def)
next
  assume F: "is_ident F \<and> lower F \<notin> set [''url'', ''urlencode'', ''quote'', ''quote_plus'']"
  then have "repl h vs X (Some F) = py_str h (get_or_empty vs X)"
    by (simp add: repl_def apply_filter_def strip_ident)
  with sub_scan_append [OF match_filtered [OF X conjunct1 [OF F]], of h vs a b]
  show "substitute_vars h (Some (a @ ''${'' @ X @ ''|'' @ F @ ''}'' @ b)) vs
        = substitute_vars h (Some a) vs @ py_str h (get_or_empty vs X)
          @ substitute_vars h (Some b) vs"
    by (simp add: substitute_vars_def)
next
  assume "placeholder_free t"
  then show "substitute_vars h (Some t) vs = t"
    by (simp add: substitute_vars_def sub_scan_free)
qed


theorem substitute_vars_placeholders_witness:
  "is_ident ''X'' \<and> [''Y'' \<mapsto> VInt 1] ''X'' = None
   \<and> is_ident ''upper''
   \<and> lower ''upper'' \<notin> set [''url'', ''urlencode'', ''quote'', ''quote_plus'']
   \<and> placeholder_free ''5$ {x} $''
   \<and> substitute_vars ex_host (Some ''a=${X}!'') [''Y'' \<mapsto> VInt 1] = ''a=!''
   \<and> substitute_vars ex_host (Some ''a=${X|url}!'') [''Y'' \<mapsto> VInt 1] = ''a=!''
   \<and> substitute_vars ex_host (Some ''a=${X|upper}!'') [''Y'' \<mapsto> VInt 1] = ''a=!''
   \<and> substitute_vars ex_host (Some ''5$ {x} $'') [''Y'' \<mapsto> VInt 1] = ''5$ {x} $''"
proof -
  have 1: "is_ident ''X''"
    by (simp add: is_ident_def is_ident_start_def)
  have 2: "is_ident ''upper''"
    by (simp add: is_ident_def is_ident_start_def is_ident_char_def)
  have 3: "lower ''upper'' \<notin> set [''url'', ''urlencode'', ''quote'', ''quote_plus'']"
    by (simp add: lower_def lower_char_def)
  have 4: "placeholder_free ''5$ {x} $''"
    by (simp add: match_placeholder_def)
  have 5: "[''Y'' \<mapsto> VInt 1] ''X'' = (None :: dec pyval option)"
    by simp
  from substitute_vars_placeholders [OF 1, of "[''Y'' \<mapsto> VInt 1]" ex_host "''a=''" "''!''"
         "''upper''" "''5$ {x} $''"] 1 2 3 4 5
  show ?thesis
    by (simp add: substitute_vars_def get_or_empty_def quote_plus_def)
qed

section \<open>Interruptible waits\<close>

lemma no_skip_quiet: "no_skip quiet"
  by (simp add: no_skip_def quiet_def)

lemma no_skip_head: "list_all no_skip (inputs st) \<Longrightarrow> no_skip (head_input st)"
  by (cases "inputs st") (auto simp: head_input_def no_skip_quiet)

lemma skip_wait_kept:
  "\<not> skip_wait st \<Longrightarrow> no_skip i \<Longrightarrow> \<not> skip_wait (poll_hotkeys_inline i (deliver i st))"
  by (auto simp: no_skip_def poll_hotkeys_inline_def deliver_def toggle_pause_def info_def
        skip_wait_now_def Let_def split: option.splits)

lemma sleep_loop_unskipped:
  "sleep_loop e st = Done st' \<Longrightarrow> \<not> skip_wait st \<Longrightarrow> list_all no_skip (inputs st)
   \<Longrightarrow> e \<le> clock st' \<and> \<not> paused st' \<and> \<not> skip_wait st'"
proof (induction e st rule: sleep_loop.induct)
  case (1 e st)
  let ?i = "head_input st"
  let ?st1 = "poll_hotkeys_inline ?i (observe st)"
  have ni: "no_skip ?i"
    using "1.prems"(3) by (rule no_skip_head)
  have ns1: "\<not> skip_wait ?st1"
    using skip_wait_kept [OF _ ni, of "st\<lparr>inputs := tl (inputs st)\<rparr>"] "1.prems"(2)
    by (simp add: observe_def)
  have rest: "list_all no_skip (inputs ?st1)"
    using "1.prems"(3) by (cases "inputs st") auto
  have nse: "\<not> skip_event ?i"
    using ni by (simp add: no_skip_def)
  show ?case
  proof (cases "paused ?st1")
    case True
    show ?thesis
    proof (cases "inputs ?st1 = []")
      case e: True
      with True nse ns1 "1.prems"(1) show ?thesis
        by (simp add: sleep_loop.simps [of e st] Let_def)
    next
      case ne: False
      with True nse ns1 "1.prems"(1) have "sleep_loop e (sleep 50 ?st1) = Done st'"
        by (simp add: sleep_loop.simps [of e st] Let_def)
      from "1.IH"(1) [OF refl refl nse ns1 True ne this] ns1 rest show ?thesis
        by (simp add: sleep_def)
    qed
  next
    case False
    show ?thesis
    proof (cases "e \<le> clock ?st1")
      case True
      with False nse ns1 "1.prems"(1) show ?thesis
        by (auto simp: sleep_loop.simps [of e st] Let_def)
    next
      case late: False
      let ?n = "sleep (if 50 < e - clock ?st1 then 50 else e - clock ?st1) ?st1"
      from late False nse ns1 "1.prems"(1) have "sleep_loop e ?n = Done st'"
        by (simp add: sleep_loop.simps [of e st] Let_def)
      from "1.IH"(2) [OF refl refl nse ns1 False late this] ns1 rest show ?thesis
        by (simp add: sleep_def)
    qed
  qed
qed


lemmas ex_wait_defs =
  sleep_ms_interruptible_def ex_engine_def
  pause_key_def quiet_def head_input_def observe_def deliver_def toggle_pause_def
  skip_wait_now_def info_def sleep_def poll_hotkeys_inline_def Let_def polled_def no_skip_def
  skip_bridge_def

text \<open>
  C1 as the specification states it: time spent while the paused flag is set does not count
  against the requested duration, so a wait that is not skipped lasts at least the requested
  time plus the time it was paused (\<open>pause_excluded\<close>). The engine does otherwise. A wait
  of 100 ms is paused at its first observation and resumed at the fourth, 150 ms later: it
  returns at once, at 150 ms, having slept none of the 100 ms outside the pause.
\<close>

theorem wait_pause_counted_counterexample:
  "\<not> skip_wait c1_engine \<and> list_all no_skip (inputs c1_engine)
   \<and> sleep_ms_interruptible 100 c1_engine
       = Done (c1_engine\<lparr>inputs := [], clock := 150, log := [LogPause True, LogPause False]\<rparr>)
   \<and> paused_time (clock c1_engine + 100) c1_engine = 150
   \<and> \<not> pause_excluded 100 c1_engine"
proof -
  have r: "sleep_ms_interruptible 100 c1_engine
       = Done (c1_engine\<lparr>inputs := [], clock := 150, log := [LogPause True, LogPause False]\<rparr>)"
    by (simp add: sleep_loop.simps c1_engine_def ex_wait_defs)
  have p: "paused_time (clock c1_engine + 100) c1_engine = 150"
    by (simp add: paused_time.simps c1_engine_def ex_wait_defs)
  have c: "clock c1_engine = 0"
    by (simp add: c1_engine_def ex_wait_defs)
  have "\<not> pause_excluded 100 c1_engine"
    unfolding pause_excluded_def r p by (simp add: c)
  moreover have "\<not> skip_wait c1_engine \<and> list_all no_skip (inputs c1_engine)"
    by (simp add: c1_engine_def ex_wait_defs)
  ultimately show ?thesis using r p by blast
qed

text \<open>
  C1, amended. The deadline of an interruptible wait is fixed when the wait starts, at the
  start time plus the requested duration, and a pause does not move it. A wait that no skip
  interrupts returns unpaused and with the clock at or past that deadline; while the engine
  is paused an iteration sleeps one slice of 50 ms and goes on with the same deadline; at
  the first observation where the engine is not paused and the clock has reached the
  deadline the wait returns at once. Time spent paused counts against the requested
  duration.
\<close>

theorem wait_deadline_fixed:
  "(0 < total_ms \<and> \<not> skip_wait st \<and> list_all no_skip (inputs st)
      \<and> sleep_ms_interruptible total_ms st = Done st'
    \<longrightarrow> clock st + total_ms \<le> clock st' \<and> \<not> paused st')
   \<and> (\<not> skip_event (head_input s2) \<and> \<not> skip_wait (polled s2) \<and> paused (polled s2)
        \<and> inputs (polled s2) \<noteq> []
      \<longrightarrow> sleep_loop e2 s2 = sleep_loop e2 (sleep 50 (polled s2)))
   \<and> (\<not> skip_event (head_input s3) \<and> \<not> skip_wait (polled s3) \<and> \<not> paused (polled s3)
        \<and> e3 \<le> clock (polled s3)
      \<longrightarrow> sleep_loop e3 s3 = Done (polled s3))"
proof (intro conjI impI)
  assume a: "0 < total_ms \<and> \<not> skip_wait st \<and> list_all no_skip (inputs st)
      \<and> sleep_ms_interruptible total_ms st = Done st'"
  then have "sleep_loop (clock st + total_ms) st = Done st'"
    by (auto simp: sleep_ms_interruptible_def)
  from sleep_loop_unskipped [OF this] a
  show "clock st + total_ms \<le> clock st'" and "\<not> paused st'" by simp_all
next
  assume "\<not> skip_event (head_input s2) \<and> \<not> skip_wait (polled s2) \<and> paused (polled s2)
        \<and> inputs (polled s2) \<noteq> []"
  then show "sleep_loop e2 s2 = sleep_loop e2 (sleep 50 (polled s2))"
    by (simp add: sleep_loop.simps [of e2 s2] polled_def Let_def)
next
  assume "\<not> skip_event (head_input s3) \<and> \<not> skip_wait (polled s3) \<and> \<not> paused (polled s3)
        \<and> e3 \<le> clock (polled s3)"
  then show "sleep_loop e3 s3 = Done (polled s3)"
    by (simp add: sleep_loop.simps [of e3 s3] polled_def Let_def)
qed

theorem wait_deadline_fixed_witness:
  "(0::int) < 100 \<and> \<not> skip_wait c1_engine \<and> list_all no_skip (inputs c1_engine)
   \<and> sleep_ms_interruptible 100 c1_engine
       = Done (c1_engine\<lparr>inputs := [], clock := 150, log := [LogPause True, LogPause False]\<rparr>)
   \<and> clock c1_engine + 100
       \<le> clock (c1_engine\<lparr>inputs := [], clock := 150, log := [LogPause True, LogPause False]\<rparr>)
   \<and> \<not> skip_event (head_input c1_engine) \<and> \<not> skip_wait (polled c1_engine)
   \<and> paused (polled c1_engine) \<and> inputs (polled c1_engine) \<noteq> []
   \<and> sleep_loop 100 c1_engine = sleep_loop 100 (sleep 50 (polled c1_engine))
   \<and> \<not> paused (polled ((ex_engine Map.empty)\<lparr>clock := 150\<rparr>))
   \<and> (100::int) \<le> clock (polled ((ex_engine Map.empty)\<lparr>clock := 150\<rparr>))
   \<and> sleep_loop 100 ((ex_engine Map.empty)\<lparr>clock := 150\<rparr>)
       = Done (polled ((ex_engine Map.empty)\<lparr>clock := 150\<rparr>))"
proof -
  let ?f = "c1_engine\<lparr>inputs := [], clock := 150, log := [LogPause True, LogPause False]\<rparr>"
  let ?s3 = "(ex_engine Map.empty)\<lparr>clock := 150\<rparr>"
  have r: "sleep_ms_interruptible 100 c1_engine = Done ?f"
    by (simp add: sleep_loop.simps c1_engine_def ex_wait_defs)
  have h1: "(0::int) < 100 \<and> \<not> skip_wait c1_engine \<and> list_all no_skip (inputs c1_engine)"
    by (simp add: c1_engine_def ex_wait_defs)
  have h2: "\<not> skip_event (head_input c1_engine) \<and> \<not> skip_wait (polled c1_engine)
     \<and> paused (polled c1_engine) \<and> inputs (polled c1_engine) \<noteq> []"
    by (simp add: c1_engine_def ex_wait_defs)
  have h3: "\<not> skip_event (head_input ?s3) \<and> \<not> skip_wait (polled ?s3)
     \<and> \<not> paused (polled ?s3) \<and> 100 \<le> clock (polled ?s3)"
    by (simp add: c1_engine_def ex_wait_defs)
  from wait_deadline_fixed [of 100 c1_engine ?f c1_engine 100 ?s3 100] r h1 h2 h3
  show ?thesis by blast
qed

lemma sleep_loop_flag_left:
  "sleep_loop e st = Done st' \<Longrightarrow> skip_wait st'
   \<Longrightarrow> log st' \<noteq> [] \<and> last (log st') = LogWaitInterruptedBridge"
proof (induction e st rule: sleep_loop.induct)
  case (1 e st)
  let ?i = "head_input st"
  let ?st1 = "poll_hotkeys_inline ?i (observe st)"
  show ?case
  proof (cases "skip_event ?i")
    case True
    with "1.prems" show ?thesis
      by (auto simp: sleep_loop.simps [of e st] Let_def info_def)
  next
    case nse: False
    show ?thesis
    proof (cases "skip_wait ?st1")
      case True
      with nse "1.prems" show ?thesis
        by (auto simp: sleep_loop.simps [of e st] Let_def info_def)
    next
      case ns1: False
      show ?thesis
      proof (cases "paused ?st1")
        case True
        show ?thesis
        proof (cases "inputs ?st1 = []")
          case e: True
          with True nse ns1 "1.prems"(1) show ?thesis
            by (simp add: sleep_loop.simps [of e st] Let_def)
        next
          case ne: False
          with True nse ns1 "1.prems"(1) have "sleep_loop e (sleep 50 ?st1) = Done st'"
            by (simp add: sleep_loop.simps [of e st] Let_def)
          from "1.IH"(1) [OF refl refl nse ns1 True ne this "1.prems"(2)] show ?thesis .
        qed
      next
        case False
        show ?thesis
        proof (cases "e \<le> clock ?st1")
          case True
          with False nse ns1 "1.prems" show ?thesis
            by (auto simp: sleep_loop.simps [of e st] Let_def)
        next
          case late: False
          let ?n = "sleep (if 50 < e - clock ?st1 then 50 else e - clock ?st1) ?st1"
          from late False nse ns1 "1.prems"(1) have "sleep_loop e ?n = Done st'"
            by (simp add: sleep_loop.simps [of e st] Let_def)
          from "1.IH"(2) [OF refl refl nse ns1 False late this "1.prems"(2)] show ?thesis .
        qed
      qed
    qed
  qed
qed

text \<open>
  C4. The skip-requested flag is cleared by the operation that observes it set: an
  iteration of the wait loop that reaches the test of the flag and finds it set returns
  with the flag reset, and so does an iteration of the event-poll loop of \<open>voice_event\<close>.
  A wait that returns with the flag still set has left through the bridge branch, which
  comes before the test and never reads the flag.
\<close>

theorem skip_flag_cleared_on_observation:
  "(\<not> skip_event (head_input st) \<and> skip_wait (polled st)
      \<longrightarrow> sleep_loop e st = Done (info LogWaitInterrupted ((polled st)\<lparr>skip_wait := False\<rparr>))
          \<and> \<not> skip_wait (info LogWaitInterrupted ((polled st)\<lparr>skip_wait := False\<rparr>)))
   \<and> (pause_gate s2 = Done s2' \<and> skip_wait s2'
      \<longrightarrow> voice_loop ge want deadline s2
            = Done (info LogVoiceInterrupted (s2'\<lparr>skip_wait := False\<rparr>), [], [])
          \<and> \<not> skip_wait (info LogVoiceInterrupted (s2'\<lparr>skip_wait := False\<rparr>)))
   \<and> (sleep_loop e3 s3 = Done s3' \<and> skip_wait s3'
      \<longrightarrow> log s3' \<noteq> [] \<and> last (log s3') = LogWaitInterruptedBridge)"
proof (intro conjI impI)
  assume "\<not> skip_event (head_input st) \<and> skip_wait (polled st)"
  then show "sleep_loop e st = Done (info LogWaitInterrupted ((polled st)\<lparr>skip_wait := False\<rparr>))"
    by (simp add: sleep_loop.simps [of e st] polled_def Let_def)
next
  show "\<not> skip_wait (info LogWaitInterrupted ((polled st)\<lparr>skip_wait := False\<rparr>))"
    by (simp add: info_def)
next
  assume "pause_gate s2 = Done s2' \<and> skip_wait s2'"
  then show "voice_loop ge want deadline s2
            = Done (info LogVoiceInterrupted (s2'\<lparr>skip_wait := False\<rparr>), [], [])"
    by (simp add: voice_loop.simps [of ge want deadline s2])
next
  show "\<not> skip_wait (info LogVoiceInterrupted (s2'\<lparr>skip_wait := False\<rparr>))"
    by (simp add: info_def)
next
  assume a: "sleep_loop e3 s3 = Done s3' \<and> skip_wait s3'"
  then show "log s3' \<noteq> []" and "last (log s3') = LogWaitInterruptedBridge"
    using sleep_loop_flag_left [of e3 s3 s3'] by simp_all
qed

theorem skip_flag_cleared_on_observation_witness:
  "\<not> skip_event (head_input c4_engine) \<and> skip_wait (polled c4_engine)
   \<and> sleep_loop 100 c4_engine = Done (c4_engine\<lparr>skip_wait := False, log := [LogWaitInterrupted]\<rparr>)
   \<and> pause_gate c4_engine = Done c4_engine \<and> skip_wait c4_engine
   \<and> voice_loop True ''any'' None c4_engine
       = Done (c4_engine\<lparr>skip_wait := False, log := [LogVoiceInterrupted]\<rparr>, [], [])
   \<and> sleep_loop 100 c4_bridge
       = Done (c4_bridge\<lparr>inputs := [], skip_wait := True,
                 log := [LogSkipRequested, LogWaitInterruptedBridge]\<rparr>)
   \<and> skip_wait (c4_bridge\<lparr>inputs := [], skip_wait := True,
                 log := [LogSkipRequested, LogWaitInterruptedBridge]\<rparr>)
   \<and> last (log (c4_bridge\<lparr>inputs := [], skip_wait := True,
                 log := [LogSkipRequested, LogWaitInterruptedBridge]\<rparr>)) = LogWaitInterruptedBridge"
proof -
  let ?b = "c4_bridge\<lparr>inputs := [], skip_wait := True,
                 log := [LogSkipRequested, LogWaitInterruptedBridge]\<rparr>"
  have h1: "\<not> skip_event (head_input c4_engine) \<and> skip_wait (polled c4_engine)"
    by (simp add: c4_engine_def ex_wait_defs)
  have p: "polled c4_engine = c4_engine"
    by (simp add: c4_engine_def ex_wait_defs)
  have h2: "pause_gate c4_engine = Done c4_engine \<and> skip_wait c4_engine"
    by (simp add: pause_gate.simps c4_engine_def ex_wait_defs)
  have h3: "sleep_loop 100 c4_bridge = Done ?b \<and> skip_wait ?b"
    by (simp add: sleep_loop.simps c4_bridge_def ex_wait_defs)
  have i: "info LogWaitInterrupted (c4_engine\<lparr>skip_wait := False\<rparr>)
           = c4_engine\<lparr>skip_wait := False, log := [LogWaitInterrupted]\<rparr>"
       "info LogVoiceInterrupted (c4_engine\<lparr>skip_wait := False\<rparr>)
           = c4_engine\<lparr>skip_wait := False, log := [LogVoiceInterrupted]\<rparr>"
    by (simp_all add: c4_engine_def ex_wait_defs)
  from skip_flag_cleared_on_observation
         [of c4_engine 100 c4_engine c4_engine True "''any''" None 100 c4_bridge ?b] h1 h2 h3
  show ?thesis by (simp add: p i)
qed

section \<open>The directives of the interpreter\<close>

lemma same_store_refl [simp]: "same_store st st"
  by (simp add: same_store_def)

lemma same_store_trans: "same_store a b \<Longrightarrow> same_store b c \<Longrightarrow> same_store a c"
  by (simp add: same_store_def)

lemma same_store_info [simp]: "same_store st (info m st)"
  by (simp add: same_store_def info_def)

lemma same_store_sleep [simp]: "same_store st (sleep n st)"
  by (simp add: same_store_def sleep_def)

lemma same_store_observe [simp]: "same_store st (observe st)"
  by (simp add: same_store_def observe_def deliver_def toggle_pause_def skip_wait_now_def
        info_def Let_def)

lemma same_store_poll [simp]: "same_store st (poll_hotkeys_inline i st)"
  by (simp add: same_store_def poll_hotkeys_inline_def toggle_pause_def info_def Let_def
        split: option.splits prod.splits)

lemma same_store_pause_body [simp]: "same_store st (pause_body i st)"
  by (simp add: same_store_def pause_body_def toggle_pause_def info_def sleep_def
        poll_hotkeys_inline_def Let_def split: option.splits prod.splits)

lemma pause_gate_store: "pause_gate st = Done st' \<Longrightarrow> same_store st st'"
proof (induction st rule: pause_gate.induct)
  case (1 st)
  show ?case
  proof (cases "inputs st = []")
    case True
    with "1.prems" show ?thesis
      by (auto simp: pause_gate.simps [of st] split: if_splits)
  next
    case False
    show ?thesis
    proof (cases "paused (observe st)")
      case True
      with False "1.prems"
      have "pause_gate (pause_body (head_input st) (observe st)) = Done st'"
        by (simp add: pause_gate.simps [of st])
      from "1.IH" [OF False refl True this]
      have "same_store (pause_body (head_input st) (observe st)) st'" .
      moreover have "same_store st (pause_body (head_input st) (observe st))"
        by (rule same_store_trans [OF same_store_observe same_store_pause_body])
      ultimately show ?thesis by (rule same_store_trans [rotated])
    next
      case notp: False
      with False "1.prems" show ?thesis
        by (auto simp: pause_gate.simps [of st])
    qed
  qed
qed

lemma pause_gate_not_raised: "pause_gate st \<noteq> Raised e s"
proof (induction st rule: pause_gate.induct)
  case (1 st)
  show ?case
  proof (cases "inputs st = []")
    case True
    then show ?thesis by (simp add: pause_gate.simps [of st])
  next
    case False
    show ?thesis
    proof (cases "paused (observe st)")
      case True
      with False "1.IH" [OF False refl True] show ?thesis
        by (simp add: pause_gate.simps [of st])
    next
      case notp: False
      with False show ?thesis by (simp add: pause_gate.simps [of st])
    qed
  qed
qed

lemma sleep_loop_store: "sleep_loop e st = Done st' \<Longrightarrow> same_store st st'"
proof (induction e st rule: sleep_loop.induct)
  case (1 e st)
  let ?i = "head_input st"
  let ?st1 = "poll_hotkeys_inline ?i (observe st)"
  have s1: "same_store st ?st1"
    by (rule same_store_trans [OF same_store_observe same_store_poll])
  show ?case
  proof (cases "skip_event ?i \<or> skip_wait ?st1")
    case True
    with "1.prems" s1 show ?thesis
      by (cases "skip_event ?i")
         (auto simp: sleep_loop.simps [of e st] Let_def same_store_def info_def)
  next
    case f: False
    then have nse: "\<not> skip_event ?i" and ns1: "\<not> skip_wait ?st1" by simp_all
    show ?thesis
    proof (cases "paused ?st1")
      case True
      show ?thesis
      proof (cases "inputs ?st1 = []")
        case e: True
        with True nse ns1 "1.prems"(1) show ?thesis
          by (simp add: sleep_loop.simps [of e st] Let_def)
      next
        case ne: False
        with True nse ns1 "1.prems"(1) have "sleep_loop e (sleep 50 ?st1) = Done st'"
          by (simp add: sleep_loop.simps [of e st] Let_def)
        from "1.IH"(1) [OF refl refl nse ns1 True ne this] s1 show ?thesis
          by (simp add: same_store_def sleep_def)
      qed
    next
      case False
      show ?thesis
      proof (cases "e \<le> clock ?st1")
        case True
        with False nse ns1 "1.prems" s1 show ?thesis
          by (auto simp: sleep_loop.simps [of e st] Let_def)
      next
        case late: False
        let ?n = "sleep (if 50 < e - clock ?st1 then 50 else e - clock ?st1) ?st1"
        from late False nse ns1 "1.prems"(1) have "sleep_loop e ?n = Done st'"
          by (simp add: sleep_loop.simps [of e st] Let_def)
        from "1.IH"(2) [OF refl refl nse ns1 False late this] s1 show ?thesis
          by (simp add: same_store_def sleep_def)
      qed
    qed
  qed
qed

lemma sleep_ms_store: "sleep_ms_interruptible n st = Done st' \<Longrightarrow> same_store st st'"
  by (auto simp: sleep_ms_interruptible_def dest: sleep_loop_store split: if_splits)

lemma delays_store: "delays h node st = Done st' \<Longrightarrow> same_store st st'"
  unfolding delays_def bind_def
  by (auto split: option.splits result.splits prod.splits dest!: sleep_ms_store
        simp: same_store_def)

lemma bind_Done [simp]: "bind (Done x) f = f x"
  by (simp add: bind_def)

lemma bind_Raised [simp]: "bind (Raised e s) f = Raised e s"
  by (simp add: bind_def)

lemma bind_Unfinished [simp]: "bind Unfinished f = Unfinished"
  by (simp add: bind_def)

lemma bind_assoc: "bind (bind r f) g = bind r (\<lambda>x. bind (f x) g)"
  by (cases r) simp_all

lemma bind_eq_Done: "bind r f = Done y \<longleftrightarrow> (\<exists>x. r = Done x \<and> f x = Done y)"
  by (cases r) simp_all

lemma set_attr_variables:
  "\<exists>val. variables (set_attr h k v st) = (variables st)(k \<mapsto> val)"
  by (auto simp: set_attr_def info_def Let_def split: prod.splits)

lemma set_attrs_other:
  "k \<notin> fst ` set kvs - {''delay_fixed'', ''delay_ms''}
   \<Longrightarrow> variables (set_attrs h kvs st) k = variables st k"
proof (induction kvs arbitrary: st)
  case Nil
  then show ?case by simp
next
  case (Cons kv kvs)
  obtain k0 v0 where kv: "kv = (k0, v0)" by (cases kv)
  have rest: "k \<notin> fst ` set kvs - {''delay_fixed'', ''delay_ms''}"
    using Cons.prems by auto
  show ?case
  proof (cases "k0 \<in> set [''delay_fixed'', ''delay_ms'']")
    case True
    with kv Cons.IH [OF rest] show ?thesis by simp
  next
    case False
    with Cons.prems kv have ne: "k \<noteq> k0" by auto
    obtain val where "variables (set_attr h k0 v0 st) = (variables st)(k0 \<mapsto> val)"
      using set_attr_variables by blast
    with ne have "variables (set_attr h k0 v0 st) k = variables st k" by simp
    with False kv Cons.IH [OF rest, of "set_attr h k0 v0 st"] show ?thesis by simp
  qed
qed

text \<open>
  C7, amended. The loop of \<open>handle_set\<close> over the attributes skips \<open>delay_fixed\<close> and
  \<open>delay_ms\<close>: a \<open>set\<close> node that returns has neither created nor overwritten the
  entries of these two names, and has left alone every name that is not one of its
  attributes.
\<close>

theorem set_skips_delay_attributes:
  "handle_set h node st = Done st' \<longrightarrow>
     variables st' ''delay_fixed'' = variables st ''delay_fixed''
     \<and> variables st' ''delay_ms'' = variables st ''delay_ms''
     \<and> (\<forall>k. k \<notin> fst ` set (attrib node) \<longrightarrow> variables st' k = variables st k)"
proof
  assume "handle_set h node st = Done st'"
  then have "same_store (set_attrs h (attrib node) st) st'"
    unfolding handle_set_def by (rule delays_store)
  then have v: "variables st' = variables (set_attrs h (attrib node) st)"
    by (simp add: same_store_def)
  show "variables st' ''delay_fixed'' = variables st ''delay_fixed''
     \<and> variables st' ''delay_ms'' = variables st ''delay_ms''
     \<and> (\<forall>k. k \<notin> fst ` set (attrib node) \<longrightarrow> variables st' k = variables st k)"
    unfolding v by (simp add: set_attrs_other)
qed

lemmas ex_host_defs =
  ex_host_def ex_eval_def parse_int_def parse_dec_def parse_frac_def parse_nat_def signed_def
  digit_val_def strip_def is_space_def dec_sub_def dec_abs_def dec_le_def dec_trunc_def

lemmas ex_engine_defs =
  ex_engine_def info_def sleep_def Let_def quiet_def head_input_def observe_def deliver_def
  poll_hotkeys_inline_def sleep_ms_interruptible_def delays_def get_nonempty_def get_attr_def
  or_default_def

lemma c7_run:
  "handle_set ex_host c7_node (ex_engine Map.empty)
   = Done ((ex_engine Map.empty)
       \<lparr>variables := (variables (ex_engine Map.empty))(''tol'' \<mapsto> VInt 5, ''comment'' \<mapsto> VStr ''hi''),
         log := [LogSet ''tol'' (VInt 5), LogSet ''comment'' (VStr ''hi'')]\<rparr>)"
  by (simp add: handle_set_def c7_node_def set_attr_def safe_eval_def substitute_vars_def
        match_placeholder_def ex_host_defs ex_engine_defs)

text \<open>
  C7 as the specification states it: a \<open>set\<close> node never creates entries named \<open>tol\<close>
  or \<open>comment\<close>. The node \<^verbatim>\<open><set tol="5" comment="hi" delay_ms="0"/>\<close> on a fresh
  engine creates both.
\<close>

theorem set_assigns_tol_and_comment_counterexample:
  "variables (ex_engine Map.empty) ''tol'' = None
   \<and> variables (ex_engine Map.empty) ''comment'' = None
   \<and> (case handle_set ex_host c7_node (ex_engine Map.empty) of
         Done st' \<Rightarrow>
           variables st' ''tol'' = Some (VInt 5) \<and> variables st' ''comment'' = Some (VStr ''hi'')
       | Raised e s \<Rightarrow> False
       | Unfinished \<Rightarrow> False)"
  by (simp add: c7_run) (simp add: ex_engine_def)

theorem set_skips_delay_attributes_witness:
  "handle_set ex_host c7_node (ex_engine Map.empty)
   = Done ((ex_engine Map.empty)
       \<lparr>variables := (variables (ex_engine Map.empty))(''tol'' \<mapsto> VInt 5, ''comment'' \<mapsto> VStr ''hi''),
         log := [LogSet ''tol'' (VInt 5), LogSet ''comment'' (VStr ''hi'')]\<rparr>)
   \<and> ''delay_ms'' \<in> fst ` set (attrib c7_node)
   \<and> ''SCREEN_W'' \<notin> fst ` set (attrib c7_node)
   \<and> variables ((ex_engine Map.empty)
       \<lparr>variables := (variables (ex_engine Map.empty))(''tol'' \<mapsto> VInt 5, ''comment'' \<mapsto> VStr ''hi''),
         log := [LogSet ''tol'' (VInt 5), LogSet ''comment'' (VStr ''hi'')]\<rparr>) ''delay_ms''
     = variables (ex_engine Map.empty) ''delay_ms''
   \<and> variables ((ex_engine Map.empty)
       \<lparr>variables := (variables (ex_engine Map.empty))(''tol'' \<mapsto> VInt 5, ''comment'' \<mapsto> VStr ''hi''),
         log := [LogSet ''tol'' (VInt 5), LogSet ''comment'' (VStr ''hi'')]\<rparr>) ''SCREEN_W''
     = variables (ex_engine Map.empty) ''SCREEN_W''"
proof -
  have a: "''delay_ms'' \<in> fst ` set (attrib c7_node)"
       "''SCREEN_W'' \<notin> fst ` set (attrib c7_node)"
    by (simp_all add: c7_node_def)
  from set_skips_delay_attributes [of ex_host c7_node "ex_engine Map.empty"] c7_run a
  show ?thesis by simp
qed

lemma bind_args_shape: "\<exists>vs. bind_args h kvs st = st\<lparr>variables := vs\<rparr>"
proof (induction kvs arbitrary: st)
  case Nil
  have "st = st\<lparr>variables := variables st\<rparr>" by simp
  then show ?case by (metis bind_args.simps(1))
next
  case (Cons kv kvs)
  obtain k0 v0 where kv: "kv = (k0, v0)" by (cases kv)
  show ?case
  proof (cases "startswith k0 ''arg''")
    case True
    let ?s1 = "st\<lparr>variables := (variables st)(k0 \<mapsto> VStr (substitute_vars h (Some v0) (variables st)))\<rparr>"
    from Cons.IH [of ?s1] obtain vs where "bind_args h kvs ?s1 = ?s1\<lparr>variables := vs\<rparr>" ..
    then have "bind_args h kvs ?s1 = st\<lparr>variables := vs\<rparr>" by simp
    with True kv show ?thesis by auto
  next
    case False
    with kv Cons.IH [of st] show ?thesis by simp
  qed
qed

lemma bind_args_frame:
  "bind_args h kvs st = st\<lparr>variables := variables (bind_args h kvs st)\<rparr>"
proof -
  obtain vs where e: "bind_args h kvs st = st\<lparr>variables := vs\<rparr>"
    using bind_args_shape by blast
  then have "variables (bind_args h kvs st) = vs" by simp
  with e show ?thesis by simp
qed

lemma bind_args_other:
  "\<forall>v. (k, v) \<in> set kvs \<longrightarrow> \<not> startswith k ''arg''
   \<Longrightarrow> variables (bind_args h kvs st) k = variables st k"
proof (induction kvs arbitrary: st)
  case Nil
  then show ?case by simp
next
  case (Cons kv kvs)
  obtain k0 v0 where kv: "kv = (k0, v0)" by (cases kv)
  have rest: "\<forall>v. (k, v) \<in> set kvs \<longrightarrow> \<not> startswith k ''arg''"
    using Cons.prems by auto
  show ?case
  proof (cases "startswith k0 ''arg''")
    case True
    with Cons.prems kv have "k \<noteq> k0" by auto
    with True kv Cons.IH [OF rest] show ?thesis by simp
  next
    case False
    with kv Cons.IH [OF rest] show ?thesis by simp
  qed
qed

lemma bind_args_absent:
  "k \<notin> fst ` set kvs \<Longrightarrow> variables (bind_args h kvs st) k = variables st k"
  by (rule bind_args_other) force

lemma bind_args_at:
  "distinct (map fst kvs) \<Longrightarrow> i < length kvs \<Longrightarrow> kvs ! i = (k, v) \<Longrightarrow> startswith k ''arg''
   \<Longrightarrow> variables (bind_args h kvs st) k
       = Some (VStr (substitute_vars h (Some v) (variables (bind_args h (take i kvs) st))))"
proof (induction kvs arbitrary: st i)
  case Nil
  then show ?case by simp
next
  case (Cons kv kvs)
  obtain k0 v0 where kv: "kv = (k0, v0)" by (cases kv)
  show ?case
  proof (cases i)
    case 0
    with Cons.prems kv have e: "k0 = k" "v0 = v" by simp_all
    with Cons.prems kv have "k \<notin> fst ` set kvs" by simp
    then have "variables (bind_args h kvs
                 (st\<lparr>variables := (variables st)(k \<mapsto> VStr (substitute_vars h (Some v) (variables st)))\<rparr>)) k
               = Some (VStr (substitute_vars h (Some v) (variables st)))"
      by (simp add: bind_args_absent)
    with Cons.prems(4) kv e 0 show ?thesis by simp
  next
    case (Suc j)
    with Cons.prems have d: "distinct (map fst kvs)" and j: "j < length kvs"
      and at: "kvs ! j = (k, v)" by simp_all
    from Cons.IH [OF d j at Cons.prems(4)] kv Suc show ?thesis by simp
  qed
qed

text \<open>
  C3. A \<open>call\<close> whose name is missing, empty or not in the function table raises
  \<open>ValueError\<close> with the message \<open>Unknown function: ...\<close> and leaves the engine exactly
  as it was: no argument is bound and no statement of a body runs. When the name is
  registered, the attributes whose names start with \<open>arg\<close> are bound first, in document
  order, each to the substituted string (substituted in the store as the earlier arguments
  left it), nothing else of the engine changes, and then the children of the function are
  executed and the delays follow.
\<close>

theorem call_unknown_or_bound:
  "((get_nonempty node ''name'' = None
       \<or> (\<exists>n. get_nonempty node ''name'' = Some n \<and> functions st n = None))
      \<longrightarrow> (\<exists>msg. handle_call h ex node st = Raised (ValueError (''Unknown function: '' @ msg)) st))
   \<and> (get_nonempty node2 ''name'' = Some n2 \<and> functions s2 n2 = Some func
      \<longrightarrow> handle_call h ex node2 s2
            = bind (exec_children ex (children func)
                      (info (LogCall n2) (bind_args h (attrib node2) s2)))
                (delays h node2)
          \<and> bind_args h (attrib node2) s2
            = s2\<lparr>variables := variables (bind_args h (attrib node2) s2)\<rparr>
          \<and> (\<forall>i k v. distinct (map fst (attrib node2)) \<and> i < length (attrib node2)
                  \<and> attrib node2 ! i = (k, v) \<and> startswith k ''arg''
                \<longrightarrow> variables (bind_args h (attrib node2) s2) k
                    = Some (VStr (substitute_vars h (Some v)
                              (variables (bind_args h (take i (attrib node2)) s2)))))
          \<and> (\<forall>k. (\<forall>v. (k, v) \<in> set (attrib node2) \<longrightarrow> \<not> startswith k ''arg'')
                \<longrightarrow> variables (bind_args h (attrib node2) s2) k = variables s2 k))"
proof (intro conjI impI allI)
  assume "get_nonempty node ''name'' = None
       \<or> (\<exists>n. get_nonempty node ''name'' = Some n \<and> functions st n = None)"
  then show "\<exists>msg. handle_call h ex node st = Raised (ValueError (''Unknown function: '' @ msg)) st"
    by (auto simp: handle_call_def)
next
  assume "get_nonempty node2 ''name'' = Some n2 \<and> functions s2 n2 = Some func"
  then show "handle_call h ex node2 s2
            = bind (exec_children ex (children func)
                      (info (LogCall n2) (bind_args h (attrib node2) s2)))
                (delays h node2)"
    by (simp add: handle_call_def)
next
  show "bind_args h (attrib node2) s2
            = s2\<lparr>variables := variables (bind_args h (attrib node2) s2)\<rparr>"
    by (rule bind_args_frame)
next
  fix i k v
  assume "distinct (map fst (attrib node2)) \<and> i < length (attrib node2)
                  \<and> attrib node2 ! i = (k, v) \<and> startswith k ''arg''"
  then show "variables (bind_args h (attrib node2) s2) k
                    = Some (VStr (substitute_vars h (Some v)
                              (variables (bind_args h (take i (attrib node2)) s2))))"
    by (simp add: bind_args_at)
next
  fix k
  assume "\<forall>v. (k, v) \<in> set (attrib node2) \<longrightarrow> \<not> startswith k ''arg''"
  then show "variables (bind_args h (attrib node2) s2) k = variables s2 k"
    by (rule bind_args_other)
qed

theorem call_unknown_or_bound_witness:
  "get_nonempty c3_missing ''name'' = Some ''missing''
   \<and> functions (ex_engine [''g'' \<mapsto> c3_func]) ''missing'' = None
   \<and> handle_call ex_host (exec_node ex_host 0) c3_missing (ex_engine [''g'' \<mapsto> c3_func])
       = Raised (ValueError ''Unknown function: missing'') (ex_engine [''g'' \<mapsto> c3_func])
   \<and> get_nonempty c3_call ''name'' = Some ''g''
   \<and> functions (ex_engine [''g'' \<mapsto> c3_func]) ''g'' = Some c3_func
   \<and> distinct (map fst (attrib c3_call)) \<and> 2 < length (attrib c3_call)
   \<and> attrib c3_call ! 2 = (''arg1'', ''${arg0}!'') \<and> startswith ''arg1'' ''arg''
   \<and> ''SCREEN_W'' \<notin> fst ` set (attrib c3_call)
   \<and> variables (bind_args ex_host (attrib c3_call) (ex_engine [''g'' \<mapsto> c3_func])) ''arg1''
       = Some (VStr ''zzz!'')
   \<and> variables (bind_args ex_host (attrib c3_call) (ex_engine [''g'' \<mapsto> c3_func])) ''SCREEN_W''
       = Some (VInt 1920)
   \<and> handle_call ex_host (exec_node ex_host 0) c3_call (ex_engine [''g'' \<mapsto> c3_func])
       = Done (info (LogCall ''g'') (bind_args ex_host (attrib c3_call) (ex_engine [''g'' \<mapsto> c3_func])))"
proof -
  let ?st = "ex_engine [''g'' \<mapsto> c3_func]"
  have h1: "get_nonempty c3_missing ''name'' = Some ''missing'' \<and> functions ?st ''missing'' = None"
    by (simp add: c3_missing_def ex_engine_defs)
  have r1: "handle_call ex_host (exec_node ex_host 0) c3_missing ?st
       = Raised (ValueError ''Unknown function: missing'') ?st"
    using h1 by (simp add: handle_call_def)
  have h2: "get_nonempty c3_call ''name'' = Some ''g'' \<and> functions ?st ''g'' = Some c3_func"
    by (simp add: c3_call_def ex_engine_defs)
  have h3: "distinct (map fst (attrib c3_call)) \<and> 2 < length (attrib c3_call)
     \<and> attrib c3_call ! 2 = (''arg1'', ''${arg0}!'') \<and> startswith ''arg1'' ''arg''"
    by (simp add: c3_call_def startswith_def)
  have h4: "\<forall>v. (''SCREEN_W'', v) \<in> set (attrib c3_call) \<longrightarrow> \<not> startswith ''SCREEN_W'' ''arg''"
    by (simp add: c3_call_def)
  have t: "variables (bind_args ex_host (take 2 (attrib c3_call)) ?st) ''arg0'' = Some (VStr ''zzz'')"
    by (simp add: c3_call_def startswith_def substitute_vars_def)
  have v: "substitute_vars ex_host (Some ''${arg0}!'')
             (variables (bind_args ex_host (take 2 (attrib c3_call)) ?st)) = ''zzz!''"
    using t by (simp add: substitute_vars_def match_placeholder_def take_ident_def
        is_ident_start_def is_ident_char_def repl_def get_or_empty_def apply_filter_def
        lower_def strip_def)
  have d: "delays ex_host c3_call (info (LogCall ''g'') (bind_args ex_host (attrib c3_call) ?st))
           = Done (info (LogCall ''g'') (bind_args ex_host (attrib c3_call) ?st))"
    by (simp add: delays_def get_nonempty_def get_attr_def c3_call_def)
  have w: "variables ?st ''SCREEN_W'' = Some (VInt 1920)"
    by (simp add: ex_engine_def)
  note T = call_unknown_or_bound [of c3_missing ?st ex_host "exec_node ex_host 0" c3_call
      "''g''" ?st c3_func]
  from T h2 have run: "handle_call ex_host (exec_node ex_host 0) c3_call ?st
       = bind (exec_children (exec_node ex_host 0) (children c3_func)
                 (info (LogCall ''g'') (bind_args ex_host (attrib c3_call) ?st)))
           (delays ex_host c3_call)"
    by blast
  from T h2 have at: "\<forall>i k v. distinct (map fst (attrib c3_call)) \<and> i < length (attrib c3_call)
                  \<and> attrib c3_call ! i = (k, v) \<and> startswith k ''arg''
                \<longrightarrow> variables (bind_args ex_host (attrib c3_call) ?st) k
                    = Some (VStr (substitute_vars ex_host (Some v)
                              (variables (bind_args ex_host (take i (attrib c3_call)) ?st))))"
    by blast
  from T h2 have other: "\<forall>k. (\<forall>v. (k, v) \<in> set (attrib c3_call) \<longrightarrow> \<not> startswith k ''arg'')
                \<longrightarrow> variables (bind_args ex_host (attrib c3_call) ?st) k = variables ?st k"
    by blast
  from at [rule_format, of 2 "''arg1''" "''${arg0}!''"] h3 v
  have a1: "variables (bind_args ex_host (attrib c3_call) ?st) ''arg1'' = Some (VStr ''zzz!'')"
    by simp
  from other [rule_format, of "''SCREEN_W''"] h4 w
  have a2: "variables (bind_args ex_host (attrib c3_call) ?st) ''SCREEN_W'' = Some (VInt 1920)"
    by simp
  from run d have a3: "handle_call ex_host (exec_node ex_host 0) c3_call ?st
       = Done (info (LogCall ''g'') (bind_args ex_host (attrib c3_call) ?st))"
    by (simp add: c3_func_def)
  have h5: "''SCREEN_W'' \<notin> fst ` set (attrib c3_call)"
    by (simp add: c3_call_def)
  from h1 r1 h2 h3 h5 a1 a2 a3 show ?thesis by blast
qed

lemma exec_gated_append:
  "exec_gated ex (a @ b) st = bind (exec_gated ex a st) (exec_gated ex b)"
proof (induction a arbitrary: st)
  case Nil
  then show ?case by simp
next
  case (Cons c cs)
  show ?case
  proof (cases "pause_gate st")
    case (Done s1)
    then show ?thesis
      by (cases "ex c s1") (simp_all add: Cons.IH)
  qed simp_all
qed

lemma repeat_loop_unroll:
  "repeat_loop ex n cs st = exec_gated ex (concat (replicate n cs)) st"
proof (induction n arbitrary: st)
  case 0
  then show ?case by simp
next
  case (Suc n)
  have "repeat_loop ex n cs = exec_gated ex (concat (replicate n cs))"
    by (rule ext) (rule Suc.IH)
  then show ?case by (simp add: exec_gated_append)
qed

section \<open>Repetition and branching\<close>

text \<open>
  C6. A \<open>repeat\<close> substitutes and evaluates its count; the count is zero when the
  evaluation or the conversion to an integer fails and when the result is negative, and is
  the result otherwise; the handler then does exactly what executing the list of children
  that many times in a row does (each child after the pause gate), and the delays follow.
\<close>

theorem repeat_runs_children_count_times:
  "handle_repeat h ex node st
     = bind (exec_gated ex (concat (replicate (nat (fst (repeat_count h node st))) (children node)))
               (info (LogRepeat (nat (fst (repeat_count h node st))))
                  (st\<lparr>world := snd (repeat_count h node st)\<rparr>)))
         (delays h node)
   \<and> 0 \<le> fst (repeat_count h node st)
   \<and> (fst (safe_eval h (repeat_source h n2 s2) (variables s2) (world s2)) = None
      \<longrightarrow> fst (repeat_count h n2 s2) = 0)
   \<and> (fst (safe_eval h (repeat_source h n3 s3) (variables s3) (world s3)) = Some v3
        \<and> py_int h v3 = None
      \<longrightarrow> fst (repeat_count h n3 s3) = 0)
   \<and> (fst (safe_eval h (repeat_source h n4 s4) (variables s4) (world s4)) = Some v4
        \<and> py_int h v4 = Some k4
      \<longrightarrow> fst (repeat_count h n4 s4) = (if k4 < 0 then 0 else k4))"
proof (intro conjI impI)
  show "handle_repeat h ex node st
     = bind (exec_gated ex (concat (replicate (nat (fst (repeat_count h node st))) (children node)))
               (info (LogRepeat (nat (fst (repeat_count h node st))))
                  (st\<lparr>world := snd (repeat_count h node st)\<rparr>)))
         (delays h node)"
    by (simp add: handle_repeat_def repeat_loop_unroll split: prod.splits)
next
  show "0 \<le> fst (repeat_count h node st)"
    by (simp add: repeat_count_def Let_def split: prod.splits)
next
  assume "fst (safe_eval h (repeat_source h n2 s2) (variables s2) (world s2)) = None"
  then show "fst (repeat_count h n2 s2) = 0"
    by (auto simp: repeat_count_def repeat_source_def Let_def split: prod.splits)
next
  assume "fst (safe_eval h (repeat_source h n3 s3) (variables s3) (world s3)) = Some v3
        \<and> py_int h v3 = None"
  then show "fst (repeat_count h n3 s3) = 0"
    by (auto simp: repeat_count_def repeat_source_def Let_def split: prod.splits)
next
  assume "fst (safe_eval h (repeat_source h n4 s4) (variables s4) (world s4)) = Some v4
        \<and> py_int h v4 = Some k4"
  then show "fst (repeat_count h n4 s4) = (if k4 < 0 then 0 else k4)"
    by (auto simp: repeat_count_def repeat_source_def Let_def split: prod.splits)
qed

lemma c6_eval:
  "safe_eval ex_host (repeat_source ex_host (c6_repeat ''3'') (ex_engine Map.empty)) vs () = (Some (VInt 3), ())"
  "safe_eval ex_host (repeat_source ex_host (c6_repeat ''-1'') (ex_engine Map.empty)) vs () = (Some (VInt (- 1)), ())"
  "safe_eval ex_host (repeat_source ex_host (c6_repeat ''many'') (ex_engine Map.empty)) vs () = (None, ())"
  "safe_eval ex_host (repeat_source ex_host (c6_repeat ''None'') (ex_engine Map.empty)) vs () = (Some VNone, ())"
  by (simp_all add: repeat_source_def c6_repeat_def get_nonempty_def get_attr_def
        substitute_vars_def safe_eval_def ex_host_defs)

theorem repeat_runs_children_count_times_witness:
  "fst (safe_eval ex_host (repeat_source ex_host (c6_repeat ''many'') (ex_engine Map.empty))
          (variables (ex_engine Map.empty)) (world (ex_engine Map.empty))) = None
   \<and> fst (repeat_count ex_host (c6_repeat ''many'') (ex_engine Map.empty)) = 0
   \<and> fst (safe_eval ex_host (repeat_source ex_host (c6_repeat ''None'') (ex_engine Map.empty))
          (variables (ex_engine Map.empty)) (world (ex_engine Map.empty))) = Some VNone
   \<and> py_int ex_host VNone = None
   \<and> fst (repeat_count ex_host (c6_repeat ''None'') (ex_engine Map.empty)) = 0
   \<and> fst (safe_eval ex_host (repeat_source ex_host (c6_repeat ''-1'') (ex_engine Map.empty))
          (variables (ex_engine Map.empty)) (world (ex_engine Map.empty))) = Some (VInt (- 1))
   \<and> py_int ex_host (VInt (- 1)) = Some (- 1)
   \<and> fst (repeat_count ex_host (c6_repeat ''-1'') (ex_engine Map.empty)) = 0
   \<and> handle_repeat ex_host (exec_node ex_host 0) (c6_repeat ''3'') (ex_engine Map.empty)
       = bind (exec_gated (exec_node ex_host 0) [c6_child, c6_child, c6_child]
                 (info (LogRepeat 3) (ex_engine Map.empty)))
           (delays ex_host (c6_repeat ''3''))"
proof -
  let ?st = "ex_engine Map.empty :: (dec, unit) engine"
  have w: "world ?st = ()" by simp
  have u: "?st\<lparr>world := ()\<rparr> = ?st" by (simp add: ex_engine_def)
  note T = repeat_runs_children_count_times [of ex_host "exec_node ex_host 0" "c6_repeat ''3''" ?st
      "c6_repeat ''many''" ?st "c6_repeat ''None''" ?st VNone "c6_repeat ''-1''" ?st "VInt (- 1)" "- 1"]
  have c3: "repeat_count ex_host (c6_repeat ''3'') ?st = (3, ())"
    using c6_eval(1) [of "variables ?st"]
    by (simp add: repeat_count_def repeat_source_def Let_def)
  have k: "concat (replicate (nat 3) [c6_child]) = [c6_child, c6_child, c6_child]"
    by (simp add: numeral_3_eq_3)
  from T c3 k have r: "handle_repeat ex_host (exec_node ex_host 0) (c6_repeat ''3'') ?st
       = bind (exec_gated (exec_node ex_host 0) [c6_child, c6_child, c6_child] (info (LogRepeat 3) ?st))
           (delays ex_host (c6_repeat ''3''))"
    by (simp add: c6_repeat_def u)
  from T c6_eval(2-4) [of "variables ?st"] r show ?thesis
    by (simp add: w)
qed

lemma if_loop_in_else:
  "if_loop ex res True kids st
   = exec_children ex (if res then [] else filter (\<lambda>c. tag_of c \<noteq> None \<and> \<not> is_else c) kids) st"
proof (induction kids arbitrary: st)
  case Nil
  then show ?case by simp
next
  case (Cons c cs)
  have "if_loop ex res True cs
        = exec_children ex (if res then [] else filter (\<lambda>c. tag_of c \<noteq> None \<and> \<not> is_else c) cs)"
    by (rule ext) (rule Cons.IH)
  then show ?case
    by (cases "tag_of c") (auto simp: is_else_def)
qed

lemma if_loop_branches:
  "if_loop ex res False kids st
   = exec_children ex (if res then then_children kids else else_children kids) st"
proof (induction kids arbitrary: st)
  case Nil
  then show ?case by (simp add: then_children_def else_children_def)
next
  case (Cons c cs)
  have ih: "if_loop ex res False cs
        = exec_children ex (if res then then_children cs else else_children cs)"
    by (rule ext) (rule Cons.IH)
  show ?case
  proof (cases "is_else c")
    case True
    then show ?thesis
      by (cases "tag_of c")
         (auto simp: is_else_def then_children_def else_children_def if_loop_in_else)
  next
    case False
    with ih show ?thesis
      by (cases "tag_of c") (auto simp: is_else_def then_children_def else_children_def)
  qed
qed

lemma eval_cond_source:
  "eval_cond h (substitute_vars h (Some (or_default (get_attr node ''cond'') [])) (variables st)) w
   = (case py_eval h (cond_source h node st) None w of
        (None, w1) \<Rightarrow> (False, True, w1)
      | (Some v, w1) \<Rightarrow> (py_bool h v, False, w1))"
  by (simp add: eval_cond_def cond_source_def Let_def)

text \<open>
  C8. An \<open>if\<close> substitutes its \<open>cond\<close> and evaluates it as a boolean, an evaluation
  error giving false; when the condition is true it executes, in order, exactly the
  children before the first \<open>else\<close> marker, when it is false exactly the children after
  it; no \<open>else\<close> marker is executed.
\<close>

theorem if_runs_one_branch:
  "handle_if h ex node st
     = exec_children ex
         (if fst (eval_cond h (substitute_vars h (Some (or_default (get_attr node ''cond'') []))
                                 (variables st)) (world st))
          then then_children (children node) else else_children (children node))
         (info (if fst (py_eval h (cond_source h node st) None (world st)) = None
                then LogIfError (substitute_vars h (Some (or_default (get_attr node ''cond'') []))
                                   (variables st))
                else LogIf (substitute_vars h (Some (or_default (get_attr node ''cond'') []))
                              (variables st))
                       (fst (eval_cond h (substitute_vars h
                               (Some (or_default (get_attr node ''cond'') [])) (variables st))
                               (world st))))
            (st\<lparr>world := snd (py_eval h (cond_source h node st) None (world st))\<rparr>))
   \<and> (fst (py_eval h (cond_source h n2 s2) None (world s2)) = None
      \<longrightarrow> \<not> fst (eval_cond h (substitute_vars h (Some (or_default (get_attr n2 ''cond'') []))
                                 (variables s2)) (world s2)))
   \<and> (fst (py_eval h (cond_source h n3 s3) None (world s3)) = Some v3
      \<longrightarrow> fst (eval_cond h (substitute_vars h (Some (or_default (get_attr n3 ''cond'') []))
                               (variables s3)) (world s3)) = py_bool h v3)
   \<and> (\<forall>c \<in> set (then_children kids) \<union> set (else_children kids). \<not> is_else c)
   \<and> (\<forall>c \<in> set (then_children kids). c \<in> set (takeWhile (\<lambda>c. \<not> is_else c) kids))
   \<and> (\<forall>c \<in> set (else_children kids). c \<in> set (dropWhile (\<lambda>c. \<not> is_else c) kids))"
proof (intro conjI impI ballI)
  show "handle_if h ex node st
     = exec_children ex
         (if fst (eval_cond h (substitute_vars h (Some (or_default (get_attr node ''cond'') []))
                                 (variables st)) (world st))
          then then_children (children node) else else_children (children node))
         (info (if fst (py_eval h (cond_source h node st) None (world st)) = None
                then LogIfError (substitute_vars h (Some (or_default (get_attr node ''cond'') []))
                                   (variables st))
                else LogIf (substitute_vars h (Some (or_default (get_attr node ''cond'') []))
                              (variables st))
                       (fst (eval_cond h (substitute_vars h
                               (Some (or_default (get_attr node ''cond'') [])) (variables st))
                               (world st))))
            (st\<lparr>world := snd (py_eval h (cond_source h node st) None (world st))\<rparr>))"
  proof (cases "py_eval h (cond_source h node st) None (world st)")
    case (Pair r w)
    then show ?thesis
      unfolding handle_if_def or_default_def [symmetric]
      by (cases r) (simp_all add: eval_cond_source Let_def if_loop_branches)
  qed
next
  assume "fst (py_eval h (cond_source h n2 s2) None (world s2)) = None"
  then show "\<not> fst (eval_cond h (substitute_vars h (Some (or_default (get_attr n2 ''cond'') []))
                                 (variables s2)) (world s2))"
    by (cases "py_eval h (cond_source h n2 s2) None (world s2)") (simp add: eval_cond_source)
next
  assume "fst (py_eval h (cond_source h n3 s3) None (world s3)) = Some v3"
  then show "fst (eval_cond h (substitute_vars h (Some (or_default (get_attr n3 ''cond'') []))
                               (variables s3)) (world s3)) = py_bool h v3"
    by (cases "py_eval h (cond_source h n3 s3) None (world s3)") (simp add: eval_cond_source)
next
  fix c assume "c \<in> set (then_children kids) \<union> set (else_children kids)"
  then show "\<not> is_else c"
    by (auto simp: then_children_def else_children_def dest: set_takeWhileD)
next
  fix c assume "c \<in> set (then_children kids)"
  then show "c \<in> set (takeWhile (\<lambda>c. \<not> is_else c) kids)"
    by (simp add: then_children_def)
next
  fix c assume "c \<in> set (else_children kids)"
  then show "c \<in> set (dropWhile (\<lambda>c. \<not> is_else c) kids)"
    by (simp add: else_children_def)
qed

theorem if_runs_one_branch_witness:
  "fst (py_eval ex_host (cond_source ex_host (c8_if ''oops'') (ex_engine Map.empty)) None
          (world (ex_engine Map.empty))) = None
   \<and> \<not> fst (eval_cond ex_host
              (substitute_vars ex_host (Some (or_default (get_attr (c8_if ''oops'') ''cond'') []))
                 (variables (ex_engine Map.empty))) (world (ex_engine Map.empty)))
   \<and> fst (py_eval ex_host (cond_source ex_host (c8_if ''1'') (ex_engine Map.empty)) None
          (world (ex_engine Map.empty))) = Some (VInt 1)
   \<and> fst (eval_cond ex_host
            (substitute_vars ex_host (Some (or_default (get_attr (c8_if ''1'') ''cond'') []))
               (variables (ex_engine Map.empty))) (world (ex_engine Map.empty)))
   \<and> then_children (children (c8_if ''1'')) = [c8_a]
   \<and> else_children (children (c8_if ''1'')) = [c8_b]
   \<and> \<not> is_else c8_a \<and> \<not> is_else c8_b
   \<and> handle_if ex_host (exec_node ex_host 0) (c8_if ''1'') (ex_engine Map.empty)
       = exec_children (exec_node ex_host 0) [c8_a] (info (LogIf ''1'' True) (ex_engine Map.empty))
   \<and> handle_if ex_host (exec_node ex_host 0) (c8_if ''oops'') (ex_engine Map.empty)
       = exec_children (exec_node ex_host 0) [c8_b]
           (info (LogIfError ''oops'') (ex_engine Map.empty))"
proof -
  let ?st = "ex_engine Map.empty :: (dec, unit) engine"
  have u: "?st\<lparr>world := ()\<rparr> = ?st" by (simp add: ex_engine_def)
  have s1: "substitute_vars ex_host (Some (or_default (get_attr (c8_if ''oops'') ''cond'') []))
              (variables ?st) = ''oops''"
    and s2: "substitute_vars ex_host (Some (or_default (get_attr (c8_if ''1'') ''cond'') []))
              (variables ?st) = ''1''"
    by (simp_all add: c8_if_def get_attr_def or_default_def substitute_vars_def)
  have e1: "py_eval ex_host (cond_source ex_host (c8_if ''oops'') ?st) None (world ?st) = (None, ())"
    and e2: "py_eval ex_host (cond_source ex_host (c8_if ''1'') ?st) None (world ?st)
             = (Some (VInt 1), ())"
    unfolding cond_source_def s1 s2 by (simp_all add: ex_host_defs)
  have k: "then_children (children (c8_if c)) = [c8_a]"
          "else_children (children (c8_if c)) = [c8_b]" for c
    by (simp_all add: c8_if_def then_children_def else_children_def is_else_def c8_a_def c8_b_def
          lower_def lower_char_def)
  note T = if_runs_one_branch [of ex_host "exec_node ex_host 0" "c8_if ''1''" ?st
      "c8_if ''oops''" ?st "c8_if ''1''" ?st "VInt 1" "children (c8_if ''1'')"]
  note T2 = if_runs_one_branch [of ex_host "exec_node ex_host 0" "c8_if ''oops''" ?st
      "c8_if ''oops''" ?st "c8_if ''1''" ?st "VInt 1" "children (c8_if ''1'')"]
  from T e1 have f1: "\<not> fst (eval_cond ex_host
              (substitute_vars ex_host (Some (or_default (get_attr (c8_if ''oops'') ''cond'') []))
                 (variables ?st)) (world ?st))"
    by simp
  from T e2 have f2: "fst (eval_cond ex_host
            (substitute_vars ex_host (Some (or_default (get_attr (c8_if ''1'') ''cond'') []))
               (variables ?st)) (world ?st))"
    by simp
  from T have "\<forall>c \<in> set (then_children (children (c8_if ''1'')))
                   \<union> set (else_children (children (c8_if ''1''))). \<not> is_else c"
    by blast
  then have f3: "\<not> is_else c8_a \<and> \<not> is_else c8_b"
    by (simp add: k)
  from T f2 e2 have f4: "handle_if ex_host (exec_node ex_host 0) (c8_if ''1'') ?st
       = exec_children (exec_node ex_host 0) [c8_a] (info (LogIf ''1'' True) ?st)"
    by (simp add: k s2 u)
  from T2 f1 e1 have f5: "handle_if ex_host (exec_node ex_host 0) (c8_if ''oops'') ?st
       = exec_children (exec_node ex_host 0) [c8_b] (info (LogIfError ''oops'') ?st)"
    by (simp add: k s1 u)
  from e1 e2 f1 f2 f3 f4 f5 k show ?thesis by simp
qed

section \<open>Assertions and iteration\<close>

lemma within_tol_iff:
  "within_tol h t r actual \<longleftrightarrow>
     (\<exists>e exp a act. r = Some e \<and> py_float h e = Some exp \<and> actual = Some a
        \<and> py_float h a = Some act \<and> float_le h (float_abs h (float_sub h exp act)) t)"
  by (auto simp: within_tol_def split: option.splits)

text \<open>
  C2 as the specification states it: when the attribute \<open>tol\<close> is present a comparison
  passes only if both sides convert to floats. In \<^verbatim>\<open><check x="abc" tol=""/>\<close> the
  attribute is present and empty; the stored value \<open>'abc'\<close> converts to no float, yet the
  check passes, by equality of strings: \<open>node.get("tol")\<close> is tested for truth, and an
  empty string is not true.
\<close>

theorem check_empty_tol_counterexample:
  "get_attr (c2_empty_tol []) ''tol'' = Some []
   \<and> variables c2_text ''x'' = Some (VStr ''abc'')
   \<and> py_float ex_host (VStr ''abc'') = None
   \<and> handle_check ex_host (c2_empty_tol []) c2_text
       = Done (info (LogCheck ''x'' (Some (VStr ''abc'')) ''abc'' None True) c2_text)"
  by (simp add: c2_empty_tol_def c2_text_def handle_check_def check_one_def str_actual_def
        substitute_vars_def ex_host_defs ex_engine_defs)

text \<open>
  C2, amended. In a \<open>check\<close>, an attribute with a reserved name is skipped. With a
  tolerance (the \<open>tol\<close> attribute is there, not empty, and is a float \<open>t\<close>) the
  comparison of an attribute passes if and only if the substituted expected expression evaluates, its value
  and the stored value both convert to floats, and the absolute difference is at most
  \<open>t\<close>; without one it passes if and only if the string form of the stored value equals
  the substituted expected string. A comparison that passes lets the loop go on; one that
  fails raises \<open>AssertionError\<close> on the spot, and the exception leaves the dispatcher and
  the run: nothing after it is executed and nothing is tried again. \<open>Without a tolerance\<close>
  is: the attribute is absent or empty. A \<open>tol\<close> that is not empty and is no float raises
  \<open>ValueError\<close> before any comparison.
\<close>

theorem check_compares_and_aborts:
  "(fst (check_one h (Some t) k v st) \<longleftrightarrow>
      (\<exists>e exp a act.
          fst (safe_eval h (substitute_vars h (Some v) (variables st)) (variables st) (world st))
            = Some e
          \<and> py_float h e = Some exp \<and> variables st k = Some a \<and> py_float h a = Some act
          \<and> float_le h (float_abs h (float_sub h exp act)) t))
   \<and> (fst (check_one h None k v st) \<longleftrightarrow>
        str_actual h (variables st k) = substitute_vars h (Some v) (variables st))
   \<and> (get_nonempty n1 ''tol'' = Some ts \<and> float_of_str h ts = Some t1
      \<longrightarrow> handle_check h n1 s1 = bind (check_attrs h (Some t1) (attrib n1) s1) (delays h n1))
   \<and> (get_nonempty n2 ''tol'' = None
      \<longrightarrow> handle_check h n2 s2 = bind (check_attrs h None (attrib n2) s2) (delays h n2))
   \<and> (check_reserved k3
      \<longrightarrow> check_attrs h tol3 ((k3, v3) # kvs3) s3 = check_attrs h tol3 kvs3 s3)
   \<and> (\<not> check_reserved k4 \<and> fst (check_one h tol4 k4 v4 s4)
      \<longrightarrow> check_attrs h tol4 ((k4, v4) # kvs4) s4
          = check_attrs h tol4 kvs4 (check_log h tol4 k4 v4 s4))
   \<and> (\<not> check_reserved k5 \<and> \<not> fst (check_one h tol5 k5 v5 s5)
      \<longrightarrow> check_attrs h tol5 ((k5, v5) # kvs5) s5
          = Raised (AssertionError (check_message h k5 v5 s5)) (check_log h tol5 k5 v5 s5))
   \<and> (lower t6 = ''check'' \<and> pause_gate s6 = Done p6
        \<and> handle_check h (Element t6 a6 c6 x6) p6 = Raised e6 r6
      \<longrightarrow> exec_node h (Suc d) (Element t6 a6 c6 x6) s6 = Raised e6 r6
          \<and> run_loop (exec_node h (Suc d)) (Element t6 a6 c6 x6 # rest) s6 = Raised e6 r6)
   \<and> (get_nonempty n7 ''tol'' = Some ts7 \<and> float_of_str h ts7 = None
      \<longrightarrow> handle_check h n7 s7
          = Raised (ValueError (''could not convert string to float: '' @ [CHR 0x27] @ ts7
                                @ [CHR 0x27])) s7)"
proof (intro conjI impI)
  show "fst (check_one h (Some t) k v st) \<longleftrightarrow>
      (\<exists>e exp a act.
          fst (safe_eval h (substitute_vars h (Some v) (variables st)) (variables st) (world st))
            = Some e
          \<and> py_float h e = Some exp \<and> variables st k = Some a \<and> py_float h a = Some act
          \<and> float_le h (float_abs h (float_sub h exp act)) t)"
    by (cases "safe_eval h (substitute_vars h (Some v) (variables st)) (variables st) (world st)")
       (simp add: check_one_def Let_def within_tol_iff)
next
  show "fst (check_one h None k v st) \<longleftrightarrow>
        str_actual h (variables st k) = substitute_vars h (Some v) (variables st)"
    by (simp add: check_one_def Let_def)
next
  assume "get_nonempty n1 ''tol'' = Some ts \<and> float_of_str h ts = Some t1"
  then show "handle_check h n1 s1 = bind (check_attrs h (Some t1) (attrib n1) s1) (delays h n1)"
    by (simp add: handle_check_def)
next
  assume "get_nonempty n2 ''tol'' = None"
  then show "handle_check h n2 s2 = bind (check_attrs h None (attrib n2) s2) (delays h n2)"
    by (simp add: handle_check_def)
next
  assume "check_reserved k3"
  then show "check_attrs h tol3 ((k3, v3) # kvs3) s3 = check_attrs h tol3 kvs3 s3"
    by (simp add: check_reserved_def)
next
  assume "\<not> check_reserved k4 \<and> fst (check_one h tol4 k4 v4 s4)"
  then show "check_attrs h tol4 ((k4, v4) # kvs4) s4
          = check_attrs h tol4 kvs4 (check_log h tol4 k4 v4 s4)"
    by (cases "check_one h tol4 k4 v4 s4") (simp add: check_reserved_def check_log_def Let_def)
next
  assume "\<not> check_reserved k5 \<and> \<not> fst (check_one h tol5 k5 v5 s5)"
  then show "check_attrs h tol5 ((k5, v5) # kvs5) s5
          = Raised (AssertionError (check_message h k5 v5 s5)) (check_log h tol5 k5 v5 s5)"
    by (cases "check_one h tol5 k5 v5 s5") (simp add: check_reserved_def check_log_def Let_def)
next
  assume a: "lower t6 = ''check'' \<and> pause_gate s6 = Done p6
        \<and> handle_check h (Element t6 a6 c6 x6) p6 = Raised e6 r6"
  then show x: "exec_node h (Suc d) (Element t6 a6 c6 x6) s6 = Raised e6 r6"
    by (simp add: dispatch_def or_default_def Let_def)
  from a have "t6 \<noteq> []" by (auto simp: lower_def)
  with a x show "run_loop (exec_node h (Suc d)) (Element t6 a6 c6 x6 # rest) s6 = Raised e6 r6"
    by (simp add: or_default_def Let_def del: exec_node.simps)
next
  assume "get_nonempty n7 ''tol'' = Some ts7 \<and> float_of_str h ts7 = None"
  then show "handle_check h n7 s7
          = Raised (ValueError (''could not convert string to float: '' @ [CHR 0x27] @ ts7
                                @ [CHR 0x27])) s7"
    by (simp add: handle_check_def)
qed

lemma c2_message:
  "check_message ex_host ''x'' ''1.02'' c2_engine
   = ''Check failed for x: actual=1.004, expected=1.02''"
  by code_simp

lemma c2_tol:
  "get_nonempty (c2_check e) ''tol'' = Some ''0.01''"
  "float_of_str ex_host ''0.01'' = Some (1, 2)"
  "get_nonempty c2_plain ''tol'' = None"
  by (simp_all add: c2_check_def c2_plain_def get_nonempty_def get_attr_def ex_host_defs)

lemma c2_one:
  "check_one ex_host (Some (1, 2)) ''x'' ''1.0'' c2_engine = (True, c2_engine)"
  "check_one ex_host (Some (1, 2)) ''x'' ''1.02'' c2_engine = (False, c2_engine)"
  "check_one ex_host None ''SCREEN_W'' ''1920'' c2_engine = (True, c2_engine)"
    apply (simp_all add: check_one_def within_tol_def safe_eval_def substitute_vars_def
      c2_engine_def ex_engine_def Let_def ex_host_defs str_actual_def)
  apply code_simp
  done

theorem check_compares_and_aborts_witness:
  "get_nonempty (c2_check ''1.0'') ''tol'' = Some ''0.01''
   \<and> float_of_str ex_host ''0.01'' = Some (1, 2)
   \<and> get_nonempty c2_plain ''tol'' = None
   \<and> check_reserved ''tol'' \<and> \<not> check_reserved ''x''
   \<and> fst (check_one ex_host (Some (1, 2)) ''x'' ''1.0'' c2_engine)
   \<and> \<not> fst (check_one ex_host (Some (1, 2)) ''x'' ''1.02'' c2_engine)
   \<and> fst (check_one ex_host None ''SCREEN_W'' ''1920'' c2_engine)
   \<and> str_actual ex_host (variables c2_engine ''SCREEN_W'')
       = substitute_vars ex_host (Some ''1920'') (variables c2_engine)
   \<and> handle_check ex_host (c2_check ''1.0'') c2_engine
       = Done (check_log ex_host (Some (1, 2)) ''x'' ''1.0'' c2_engine)
   \<and> handle_check ex_host c2_plain c2_engine
       = Done (check_log ex_host None ''SCREEN_W'' ''1920'' c2_engine)
   \<and> lower ''check'' = ''check'' \<and> pause_gate c2_engine = Done c2_engine
   \<and> handle_check ex_host (c2_check ''1.02'') c2_engine
       = Raised (AssertionError ''Check failed for x: actual=1.004, expected=1.02'')
           (check_log ex_host (Some (1, 2)) ''x'' ''1.02'' c2_engine)
   \<and> run_loop (exec_node ex_host (Suc 0)) [c2_check ''1.02'', c2_plain] c2_engine
       = Raised (AssertionError ''Check failed for x: actual=1.004, expected=1.02'')
           (check_log ex_host (Some (1, 2)) ''x'' ''1.02'' c2_engine)
   \<and> get_nonempty (c2_empty_tol ''abc'') ''tol'' = Some ''abc''
   \<and> float_of_str ex_host ''abc'' = None
   \<and> handle_check ex_host (c2_empty_tol ''abc'') c2_text
       = Raised (ValueError (''could not convert string to float: '' @ [CHR 0x27] @ ''abc''
                             @ [CHR 0x27])) c2_text"
proof -
  have res: "check_reserved ''tol''" "check_reserved ''comment''" "\<not> check_reserved ''x''"
      "\<not> check_reserved ''SCREEN_W''"
    by (simp_all add: check_reserved_def)
  have pg: "lower ''check'' = ''check'' \<and> pause_gate c2_engine = Done c2_engine"
    by (simp add: pause_gate.simps c2_engine_def ex_engine_def lower_def lower_char_def)
  have nd: "delays ex_host (c2_check e) st = Done st" "delays ex_host c2_plain st = Done st"
    for e and st :: "(dec, unit) engine"
    by (simp_all add: delays_def get_nonempty_def get_attr_def c2_check_def c2_plain_def)
  note T = check_compares_and_aborts [where h = ex_host and d = 0]
  note R = T [THEN conjunct2]
  note R2 = R [THEN conjunct2]
  note R3 = R2 [THEN conjunct2]
  note R4 = R3 [THEN conjunct2]
  note R5 = R4 [THEN conjunct2]
  note R6 = R5 [THEN conjunct2]
  note plain = R [THEN conjunct1]
  note with_tol = R2 [THEN conjunct1, rule_format]
  note without_tol = R3 [THEN conjunct1, rule_format]
  note passes = R5 [THEN conjunct1, rule_format]
  note fails = R6 [THEN conjunct1, rule_format]
  note aborts = R6 [THEN conjunct2, THEN conjunct1, rule_format]
  note bad_tol = R6 [THEN conjunct2, THEN conjunct2, rule_format]
  have p1: "fst (check_one ex_host (Some (1, 2)) ''x'' ''1.0'' c2_engine)"
    and p2: "\<not> fst (check_one ex_host (Some (1, 2)) ''x'' ''1.02'' c2_engine)"
    and p3: "fst (check_one ex_host None ''SCREEN_W'' ''1920'' c2_engine)"
    by (simp_all add: c2_one)
  from plain [of "''SCREEN_W''" "''1920''" c2_engine] p3
  have q3: "str_actual ex_host (variables c2_engine ''SCREEN_W'')
       = substitute_vars ex_host (Some ''1920'') (variables c2_engine)"
    by simp
  have a1: "check_attrs ex_host (Some (1, 2)) (attrib (c2_check ''1.0'')) c2_engine
            = Done (check_log ex_host (Some (1, 2)) ''x'' ''1.0'' c2_engine)"
    using passes [of "''x''" "Some (1, 2)" "''1.0''" c2_engine
        "[(''tol'', ''0.01''), (''comment'', ''close'')]"] res p1
    by (simp add: c2_check_def)
  have a2: "check_attrs ex_host (Some (1, 2)) (attrib (c2_check ''1.02'')) c2_engine
            = Raised (AssertionError ''Check failed for x: actual=1.004, expected=1.02'')
                (check_log ex_host (Some (1, 2)) ''x'' ''1.02'' c2_engine)"
    using fails [of "''x''" "Some (1, 2)" "''1.02''" c2_engine
        "[(''tol'', ''0.01''), (''comment'', ''close'')]"] res p2
    by (simp add: c2_check_def c2_message)
  have a3: "check_attrs ex_host None (attrib c2_plain) c2_engine
            = Done (check_log ex_host None ''SCREEN_W'' ''1920'' c2_engine)"
    using passes [of "''SCREEN_W''" None "''1920''" c2_engine "[]"] res p3
    by (simp add: c2_plain_def)
  have h1: "handle_check ex_host (c2_check ''1.0'') c2_engine
       = Done (check_log ex_host (Some (1, 2)) ''x'' ''1.0'' c2_engine)"
    using with_tol [of "c2_check ''1.0''" "''0.01''" "(1, 2)" c2_engine] c2_tol a1 nd
    by simp
  have h2: "handle_check ex_host (c2_check ''1.02'') c2_engine
       = Raised (AssertionError ''Check failed for x: actual=1.004, expected=1.02'')
           (check_log ex_host (Some (1, 2)) ''x'' ''1.02'' c2_engine)"
    using with_tol [of "c2_check ''1.02''" "''0.01''" "(1, 2)" c2_engine] c2_tol a2
    by simp
  have h3: "handle_check ex_host c2_plain c2_engine
       = Done (check_log ex_host None ''SCREEN_W'' ''1920'' c2_engine)"
    using without_tol [of c2_plain c2_engine] c2_tol a3 nd
    by simp
  have h4: "run_loop (exec_node ex_host (Suc 0)) [c2_check ''1.02'', c2_plain] c2_engine
       = Raised (AssertionError ''Check failed for x: actual=1.004, expected=1.02'')
           (check_log ex_host (Some (1, 2)) ''x'' ''1.02'' c2_engine)"
    using aborts [of "''check''" c2_engine c2_engine
        "[(''x'', ''1.02''), (''tol'', ''0.01''), (''comment'', ''close'')]" "[]" None
        "AssertionError ''Check failed for x: actual=1.004, expected=1.02''"
        "check_log ex_host (Some (1, 2)) ''x'' ''1.02'' c2_engine" "[c2_plain]"] pg h2
    unfolding c2_check_def by simp
  have b: "get_nonempty (c2_empty_tol ''abc'') ''tol'' = Some ''abc''
      \<and> float_of_str ex_host ''abc'' = None"
    by (simp add: c2_empty_tol_def get_nonempty_def get_attr_def ex_host_defs)
  from bad_tol [of "c2_empty_tol ''abc''" "''abc''" c2_text] b
  have h5: "handle_check ex_host (c2_empty_tol ''abc'') c2_text
       = Raised (ValueError (''could not convert string to float: '' @ [CHR 0x27] @ ''abc''
                             @ [CHR 0x27])) c2_text"
    by simp
  from c2_tol res p1 p2 p3 q3 h1 h2 h3 h4 h5 b pg show ?thesis by simp
qed

lemma foreach_loop_append:
  "foreach_loop ex var body idx (xs @ ys) st
   = bind (foreach_loop ex var body idx xs st) (foreach_loop ex var body (idx + length xs) ys)"
proof (induction xs arbitrary: idx st)
  case Nil
  then show ?case by simp
next
  case (Cons x xs)
  have ih: "foreach_loop ex var body (Suc idx) (xs @ ys)
            = (\<lambda>s. bind (foreach_loop ex var body (Suc idx) xs s)
                      (foreach_loop ex var body (Suc idx + length xs) ys))"
    by (rule ext) (rule Cons.IH)
  show ?case
    by (simp add: ih bind_assoc)
qed

lemma foreach_loop_split:
  assumes "i < length items"
  shows "foreach_loop ex var body 0 items st
     = bind (foreach_loop ex var body 0 (take i items) st)
         (\<lambda>s. bind (pause_gate s)
            (\<lambda>p. bind (exec_gated ex body (bind_item var i (items ! i) p))
                    (foreach_loop ex var body (Suc i) (drop (Suc i) items))))"
proof -
  have "items = take i items @ items ! i # drop (Suc i) items"
    using assms by (simp add: id_take_nth_drop)
  then have "foreach_loop ex var body 0 items st
      = foreach_loop ex var body 0 (take i items @ items ! i # drop (Suc i) items) st"
    by simp
  also have "\<dots> = bind (foreach_loop ex var body 0 (take i items) st)
         (foreach_loop ex var body (0 + length (take i items)) (items ! i # drop (Suc i) items))"
    by (rule foreach_loop_append)
  also have "foreach_loop ex var body (0 + length (take i items)) (items ! i # drop (Suc i) items)
      = (\<lambda>s. bind (pause_gate s)
            (\<lambda>p. bind (exec_gated ex body (bind_item var i (items ! i) p))
                    (foreach_loop ex var body (Suc i) (drop (Suc i) items))))"
    using assms by (auto simp: min_def)
  finally show ?thesis .
qed

lemma handle_foreach_registered:
  "foreach_func node \<noteq> [] \<Longrightarrow> functions st (foreach_func node) = Some func
   \<Longrightarrow> foreach_items h node st = Some (items, w)
   \<Longrightarrow> handle_foreach h ex node st
       = bind (foreach_loop ex (foreach_var node) (children func) 0 items (st\<lparr>world := w\<rparr>))
           (delays h node)"
  by (simp add: handle_foreach_def foreach_func_def foreach_var_def Let_def)

text \<open>
  C5, amended. For a \<open>foreach\<close> whose function is registered and whose list resolves
  to \<open>n\<close> elements, the handler is the loop over these elements followed by the delays;
  the loop over no element does nothing; and for every \<open>i < n\<close> the loop is: the loop
  over the first \<open>i\<close> elements, the pause gate, the execution of the body in the store
  \<open>bind_item var i (vals ! i) p\<close>, the loop over the remaining elements. That store binds
  \<open>index\<close> to \<open>i\<close>, \<open>arg0\<close> to the element, and the per-element variable to the
  element when it is not itself named \<open>index\<close>; every other name is as before.
\<close>

theorem foreach_runs_body_per_element:
  "(foreach_func node \<noteq> [] \<and> functions st (foreach_func node) = Some func
      \<and> foreach_items h node st = Some (items, w)
    \<longrightarrow> handle_foreach h ex node st
        = bind (foreach_loop ex (foreach_var node) (children func) 0 items (st\<lparr>world := w\<rparr>))
            (delays h node))
   \<and> (\<forall>i < length vals.
         foreach_loop ex var body 0 vals s
         = bind (foreach_loop ex var body 0 (take i vals) s)
             (\<lambda>s1. bind (pause_gate s1)
                (\<lambda>p. bind (exec_gated ex body (bind_item var i (vals ! i) p))
                        (foreach_loop ex var body (Suc i) (drop (Suc i) vals)))))
   \<and> foreach_loop ex var body k [] s = Done s
   \<and> variables (bind_item var j x p) ''index'' = Some (VInt (int j))
   \<and> variables (bind_item var j x p) ''arg0'' = Some x
   \<and> (var \<noteq> ''index'' \<longrightarrow> variables (bind_item var j x p) var = Some x)
   \<and> (\<forall>n. n \<notin> {var, ''index'', ''arg0''}
         \<longrightarrow> variables (bind_item var j x p) n = variables p n)"
  by (auto simp: handle_foreach_registered foreach_loop_split bind_item_def)

lemma c5_items:
  "foreach_items ex_host (c5_node var) c5_engine = Some ([VStr ''a'', VStr ''b'', VStr ''c''], ())"
  by (simp add: foreach_items_def foreach_data_def c5_node_def c5_engine_def ex_engine_def
        get_nonempty_def get_attr_def or_default_def)

lemma c5_names:
  "foreach_func (c5_node var) = ''f''"
  "var \<noteq> [] \<Longrightarrow> foreach_var (c5_node var) = var"
  "functions c5_engine ''f'' = Some c5_func"
  "pause_gate c5_engine = Done c5_engine"
  "c5_engine\<lparr>world := ()\<rparr> = c5_engine"
  by (simp_all add: foreach_func_def foreach_var_def c5_node_def c5_engine_def ex_engine_def
        get_nonempty_def get_attr_def or_default_def pause_gate.simps)

text \<open>
  C5 as the specification states it: before each execution of the body the per-element
  variable holds the element. In \<^verbatim>\<open><foreach list="ITEMS" var="index" do="f"/>\<close> the
  per-element variable is \<open>index\<close>; the handler assigns the element to it and then the
  position, so the first execution of the body starts with \<open>index = 0\<close>, not \<open>'a'\<close>.
\<close>

theorem foreach_variable_named_index_counterexample:
  "foreach_items ex_host (c5_node ''index'') c5_engine
     = Some ([VStr ''a'', VStr ''b'', VStr ''c''], ())
   \<and> functions c5_engine (foreach_func (c5_node ''index'')) = Some c5_func
   \<and> foreach_var (c5_node ''index'') = ''index''
   \<and> handle_foreach ex_host (exec_node ex_host 1) (c5_node ''index'') c5_engine
       = bind (bind (exec_gated (exec_node ex_host 1) (children c5_func)
                       (bind_item ''index'' 0 (VStr ''a'') c5_engine))
                 (foreach_loop (exec_node ex_host 1) ''index'' (children c5_func) 1
                    [VStr ''b'', VStr ''c'']))
           (delays ex_host (c5_node ''index''))
   \<and> variables (bind_item ''index'' 0 (VStr ''a'') c5_engine) ''index'' = Some (VInt 0)
   \<and> variables (bind_item ''index'' 0 (VStr ''a'') c5_engine) ''index'' \<noteq> Some (VStr ''a'')"
proof -
  have r: "handle_foreach ex_host (exec_node ex_host 1) (c5_node ''index'') c5_engine
       = bind (foreach_loop (exec_node ex_host 1) ''index'' (children c5_func) 0
                 [VStr ''a'', VStr ''b'', VStr ''c''] c5_engine)
           (delays ex_host (c5_node ''index''))"
    using handle_foreach_registered [of "c5_node ''index''" c5_engine c5_func ex_host
        "[VStr ''a'', VStr ''b'', VStr ''c'']" "()" "exec_node ex_host 1"]
    by (simp add: c5_names c5_items)
  have "foreach_loop (exec_node ex_host 1) ''index'' (children c5_func) 0
                 [VStr ''a'', VStr ''b'', VStr ''c''] c5_engine
        = bind (exec_gated (exec_node ex_host 1) (children c5_func)
                       (bind_item ''index'' 0 (VStr ''a'') c5_engine))
                 (foreach_loop (exec_node ex_host 1) ''index'' (children c5_func) 1
                    [VStr ''b'', VStr ''c''])"
    by (simp add: c5_names del: exec_gated.simps foreach_loop.simps(2)
          add: foreach_loop.simps(2) [of _ _ _ 0])
  with r show ?thesis
    by (simp add: c5_names c5_items bind_item_def del: exec_gated.simps foreach_loop.simps)
qed

theorem foreach_runs_body_per_element_witness:
  "foreach_func (c5_node ''x'') \<noteq> []
   \<and> functions c5_engine (foreach_func (c5_node ''x'')) = Some c5_func
   \<and> foreach_items ex_host (c5_node ''x'') c5_engine = Some ([VStr ''a'', VStr ''b'', VStr ''c''], ())
   \<and> handle_foreach ex_host (exec_node ex_host 1) (c5_node ''x'') c5_engine
       = bind (foreach_loop (exec_node ex_host 1) ''x'' (children c5_func) 0
                 [VStr ''a'', VStr ''b'', VStr ''c''] c5_engine)
           (delays ex_host (c5_node ''x''))
   \<and> (1::nat) < length [VStr ''a'', VStr ''b'', VStr ''c'' :: dec pyval]
   \<and> foreach_loop (exec_node ex_host 1) ''x'' (children c5_func) 0
         [VStr ''a'', VStr ''b'', VStr ''c''] c5_engine
       = bind (foreach_loop (exec_node ex_host 1) ''x'' (children c5_func) 0 [VStr ''a''] c5_engine)
           (\<lambda>s1. bind (pause_gate s1)
              (\<lambda>p. bind (exec_gated (exec_node ex_host 1) (children c5_func)
                            (bind_item ''x'' 1 (VStr ''b'') p))
                      (foreach_loop (exec_node ex_host 1) ''x'' (children c5_func) 2 [VStr ''c''])))
   \<and> ''x'' \<noteq> ''index'' \<and> ''SCREEN_W'' \<notin> {''x'', ''index'', ''arg0''}
   \<and> variables (bind_item ''x'' 1 (VStr ''b'') c5_engine) ''x'' = Some (VStr ''b'')
   \<and> variables (bind_item ''x'' 1 (VStr ''b'') c5_engine) ''index'' = Some (VInt 1)
   \<and> variables (bind_item ''x'' 1 (VStr ''b'') c5_engine) ''arg0'' = Some (VStr ''b'')
   \<and> variables (bind_item ''x'' 1 (VStr ''b'') c5_engine) ''SCREEN_W''
       = variables c5_engine ''SCREEN_W''"
proof -
  note T = foreach_runs_body_per_element [of "c5_node ''x''" c5_engine c5_func ex_host
      "[VStr ''a'', VStr ''b'', VStr ''c'']" "()" "exec_node ex_host 1"
      "[VStr ''a'', VStr ''b'', VStr ''c'']" "''x''" "children c5_func" c5_engine 0 1 "VStr ''b''"
      c5_engine]
  have h: "foreach_func (c5_node ''x'') \<noteq> []
     \<and> functions c5_engine (foreach_func (c5_node ''x'')) = Some c5_func
     \<and> foreach_items ex_host (c5_node ''x'') c5_engine
         = Some ([VStr ''a'', VStr ''b'', VStr ''c''], ())"
    by (simp add: c5_names c5_items)
  have v: "foreach_var (c5_node ''x'') = ''x''"
    by (simp add: c5_names)
  from T h have r: "handle_foreach ex_host (exec_node ex_host 1) (c5_node ''x'') c5_engine
       = bind (foreach_loop (exec_node ex_host 1) (foreach_var (c5_node ''x'')) (children c5_func) 0
                 [VStr ''a'', VStr ''b'', VStr ''c''] (c5_engine\<lparr>world := ()\<rparr>))
           (delays ex_host (c5_node ''x''))"
    by (rule conjunct1 [THEN mp])
  from T have "\<forall>i < length [VStr ''a'', VStr ''b'', VStr ''c'' :: dec pyval].
         foreach_loop (exec_node ex_host 1) ''x'' (children c5_func) 0
           [VStr ''a'', VStr ''b'', VStr ''c''] c5_engine
         = bind (foreach_loop (exec_node ex_host 1) ''x'' (children c5_func) 0
                   (take i [VStr ''a'', VStr ''b'', VStr ''c'']) c5_engine)
             (\<lambda>s1. bind (pause_gate s1)
                (\<lambda>p. bind (exec_gated (exec_node ex_host 1) (children c5_func)
                              (bind_item ''x'' i ([VStr ''a'', VStr ''b'', VStr ''c''] ! i) p))
                        (foreach_loop (exec_node ex_host 1) ''x'' (children c5_func) (Suc i)
                           (drop (Suc i) [VStr ''a'', VStr ''b'', VStr ''c'']))))"
    by (rule conjunct2 [THEN conjunct1])
  from this [rule_format, of 1]
  have sp: "foreach_loop (exec_node ex_host 1) ''x'' (children c5_func) 0
         [VStr ''a'', VStr ''b'', VStr ''c''] c5_engine
       = bind (foreach_loop (exec_node ex_host 1) ''x'' (children c5_func) 0 [VStr ''a''] c5_engine)
           (\<lambda>s1. bind (pause_gate s1)
              (\<lambda>p. bind (exec_gated (exec_node ex_host 1) (children c5_func)
                            (bind_item ''x'' 1 (VStr ''b'') p))
                      (foreach_loop (exec_node ex_host 1) ''x'' (children c5_func) 2 [VStr ''c''])))"
    by (simp del: exec_gated.simps foreach_loop.simps add: numeral_2_eq_2)
  from T have b: "variables (bind_item ''x'' 1 (VStr ''b'') c5_engine) ''index'' = Some (VInt 1)
     \<and> variables (bind_item ''x'' 1 (VStr ''b'') c5_engine) ''arg0'' = Some (VStr ''b'')
     \<and> variables (bind_item ''x'' 1 (VStr ''b'') c5_engine) ''x'' = Some (VStr ''b'')
     \<and> variables (bind_item ''x'' 1 (VStr ''b'') c5_engine) ''SCREEN_W''
         = variables c5_engine ''SCREEN_W''"
    by simp
  from h r sp b v show ?thesis
    by (simp add: c5_names del: exec_gated.simps foreach_loop.simps)
qed

lemma foreach_loop_last:
  assumes "foreach_loop ex var body idx (xs @ [x]) st = Done st'"
  shows "\<exists>p. exec_gated ex body (bind_item var (idx + length xs) x p) = Done st'"
proof -
  from assms obtain s where "foreach_loop ex var body (idx + length xs) [x] s = Done st'"
    by (auto simp: foreach_loop_append bind_eq_Done)
  then show ?thesis
    by (auto simp: bind_eq_Done)
qed

text \<open>
  C10, amended. After a \<open>foreach\<close> over a non-empty list has returned, the Variable
  Store is the one that the last execution of the body left, and that execution started
  with \<open>index\<close> bound to \<open>n - 1\<close>, \<open>arg0\<close> to the last element and the per-element
  variable (when not named \<open>index\<close>) to the last element: the handler neither removes nor
  restores the bindings. They hold these values after the directive whenever the body of
  the function does not rebind them.
\<close>

theorem foreach_bindings_left_by_last_execution:
  assumes "foreach_func node \<noteq> []" and "functions st (foreach_func node) = Some func"
    and "foreach_items h node st = Some (items, w)" and "items \<noteq> []"
    and "handle_foreach h ex node st = Done st'"
  shows "(\<exists>p x. exec_gated ex (children func)
                  (bind_item (foreach_var node) (length items - 1) (last items) p) = Done x
              \<and> variables st' = variables x)
       \<and> ((\<forall>e x. exec_gated ex (children func) e = Done x \<longrightarrow>
               variables x (foreach_var node) = variables e (foreach_var node)
               \<and> variables x ''index'' = variables e ''index''
               \<and> variables x ''arg0'' = variables e ''arg0'')
          \<longrightarrow> variables st' ''index'' = Some (VInt (int (length items) - 1))
              \<and> variables st' ''arg0'' = Some (last items)
              \<and> (foreach_var node \<noteq> ''index''
                  \<longrightarrow> variables st' (foreach_var node) = Some (last items)))"
proof -
  from assms(1-3,5)
  obtain s where loop: "foreach_loop ex (foreach_var node) (children func) 0 items (st\<lparr>world := w\<rparr>)
                        = Done s"
    and d: "delays h node s = Done st'"
    by (auto simp: handle_foreach_registered bind_eq_Done)
  from assms(4) have items: "items = butlast items @ [last items]" by simp
  from loop items
  have "foreach_loop ex (foreach_var node) (children func) 0 (butlast items @ [last items])
          (st\<lparr>world := w\<rparr>) = Done s"
    by simp
  from foreach_loop_last [OF this]
  obtain p where run: "exec_gated ex (children func)
        (bind_item (foreach_var node) (length items - 1) (last items) p) = Done s"
    by auto
  from delays_store [OF d] have v: "variables st' = variables s"
    by (simp add: same_store_def)
  have n: "int (length items - 1) = int (length items) - 1"
    using assms(4) by (cases items) simp_all
  show ?thesis
  proof (intro conjI impI)
    from run v show "\<exists>p x. exec_gated ex (children func)
                  (bind_item (foreach_var node) (length items - 1) (last items) p) = Done x
              \<and> variables st' = variables x"
      by blast
  next
    assume k: "\<forall>e x. exec_gated ex (children func) e = Done x \<longrightarrow>
               variables x (foreach_var node) = variables e (foreach_var node)
               \<and> variables x ''index'' = variables e ''index''
               \<and> variables x ''arg0'' = variables e ''arg0''"
    from k run v n show "variables st' ''index'' = Some (VInt (int (length items) - 1))"
      by (simp add: bind_item_def)
    from k run v show "variables st' ''arg0'' = Some (last items)"
      by (simp add: bind_item_def)
    assume "foreach_var node \<noteq> ''index''"
    with k run v show "variables st' (foreach_var node) = Some (last items)"
      by (simp add: bind_item_def)
  qed
qed

lemmas ex_run_defs =
  handle_foreach_def foreach_items_def foreach_data_def ex_engine_def
  get_nonempty_def get_attr_def or_default_def pause_gate.simps bind_item_def delays_def
  dispatch_def handle_call_def handle_set_def set_attr_def safe_eval_def substitute_vars_def
  lower_def lower_char_def startswith_def info_def Let_def

lemma c10_run:
  "handle_foreach ex_host (exec_node ex_host (Suc (Suc 0))) c10_node c10_engine
   = Done (c10_engine
       \<lparr>variables := [''ITEMS'' \<mapsto> VList [VStr ''a'', VStr ''b''], ''x'' \<mapsto> VStr ''a'',
            ''index'' \<mapsto> VInt 0, ''arg0'' \<mapsto> VStr ''a'', ''arg0'' \<mapsto> VStr ''zzz'',
            ''x'' \<mapsto> VStr ''b'', ''index'' \<mapsto> VInt 1, ''arg0'' \<mapsto> VStr ''b'',
            ''arg0'' \<mapsto> VStr ''zzz''],
         log := [LogCall ''g'', LogCall ''g'']\<rparr>)"
  by (simp add: c10_node_def c10_engine_def c10_func_def ex_run_defs)

text \<open>
  C10 as the specification states it: after the directive \<open>arg0\<close> holds the last element.
  Here the body of the function is \<^verbatim>\<open><call name="g" arg0="zzz"/>\<close>, which rebinds
  \<open>arg0\<close> in the shared store: after the loop over \<open>['a', 'b']\<close> it holds \<open>'zzz'\<close>.
\<close>

theorem foreach_body_rebinds_counterexample:
  "foreach_items ex_host c10_node c10_engine = Some ([VStr ''a'', VStr ''b''], ())
   \<and> functions c10_engine (foreach_func c10_node) = Some c10_func
   \<and> (case handle_foreach ex_host (exec_node ex_host (Suc (Suc 0))) c10_node c10_engine of
         Done st' \<Rightarrow>
           variables st' ''arg0'' = Some (VStr ''zzz'')
           \<and> variables st' ''arg0'' \<noteq> Some (last [VStr ''a'', VStr ''b''])
       | Raised e s \<Rightarrow> False
       | Unfinished \<Rightarrow> False)"
proof -
  have "foreach_items ex_host c10_node c10_engine = Some ([VStr ''a'', VStr ''b''], ())"
    by (simp add: c10_node_def c10_engine_def ex_run_defs)
  moreover have "functions c10_engine (foreach_func c10_node) = Some c10_func"
    by (simp add: c10_node_def c10_engine_def foreach_func_def ex_run_defs)
  ultimately show ?thesis
    by (simp add: c10_run)
qed

lemma c10_quiet_run:
  "handle_foreach ex_host (exec_node ex_host (Suc 0)) (c5_node ''x'') c5_engine = Done c10_quiet"
  by (simp add: c10_quiet_def c5_node_def c5_engine_def c5_func_def ex_run_defs ex_host_defs)

lemma c5_body_frame:
  assumes "exec_gated (exec_node ex_host (Suc 0)) (children c5_func) e = Done x"
    and "k \<noteq> ''seen''"
  shows "variables x k = variables e k"
proof -
  let ?n = "Element ''set'' [(''seen'', ''1'')] [] None"
  from assms(1) obtain p q where p: "pause_gate e = Done p" and q: "pause_gate p = Done q"
    and r: "handle_set ex_host ?n q = Done x"
    by (auto simp: c5_func_def bind_eq_Done dispatch_def or_default_def lower_def lower_char_def)
  from r have "same_store (set_attrs ex_host (attrib ?n) q) x"
    unfolding handle_set_def by (rule delays_store)
  then have "variables x k = variables (set_attrs ex_host (attrib ?n) q) k"
    by (simp add: same_store_def)
  also have "\<dots> = variables q k"
    using assms(2) by (intro set_attrs_other) simp
  also have "\<dots> = variables e k"
    using pause_gate_store [OF p] pause_gate_store [OF q] by (simp add: same_store_def)
  finally show ?thesis .
qed

theorem foreach_bindings_left_by_last_execution_witness:
  "foreach_func (c5_node ''x'') \<noteq> []
   \<and> functions c5_engine (foreach_func (c5_node ''x'')) = Some c5_func
   \<and> foreach_items ex_host (c5_node ''x'') c5_engine = Some ([VStr ''a'', VStr ''b'', VStr ''c''], ())
   \<and> [VStr ''a'', VStr ''b'', VStr ''c'' :: dec pyval] \<noteq> []
   \<and> handle_foreach ex_host (exec_node ex_host (Suc 0)) (c5_node ''x'') c5_engine = Done c10_quiet
   \<and> foreach_var (c5_node ''x'') \<noteq> ''index''
   \<and> variables c10_quiet ''index'' = Some (VInt 2)
   \<and> variables c10_quiet ''arg0'' = Some (VStr ''c'')
   \<and> variables c10_quiet (foreach_var (c5_node ''x'')) = Some (VStr ''c'')"
proof -
  have h: "foreach_func (c5_node ''x'') \<noteq> []"
      "functions c5_engine (foreach_func (c5_node ''x'')) = Some c5_func"
      "foreach_items ex_host (c5_node ''x'') c5_engine
         = Some ([VStr ''a'', VStr ''b'', VStr ''c''], ())"
      "[VStr ''a'', VStr ''b'', VStr ''c'' :: dec pyval] \<noteq> []"
    by (simp_all add: c5_names c5_items)
  have v: "foreach_var (c5_node ''x'') = ''x''"
    by (simp add: c5_names)
  have f: "\<forall>e x. exec_gated (exec_node ex_host (Suc 0)) (children c5_func) e = Done x \<longrightarrow>
          variables x (foreach_var (c5_node ''x'')) = variables e (foreach_var (c5_node ''x''))
          \<and> variables x ''index'' = variables e ''index''
          \<and> variables x ''arg0'' = variables e ''arg0''"
    unfolding v by (intro allI impI conjI; rule c5_body_frame; simp)
  from foreach_bindings_left_by_last_execution [OF h c10_quiet_run, THEN conjunct2, THEN mp, OF f]
  have "variables c10_quiet ''index'' = Some (VInt 2)
     \<and> variables c10_quiet ''arg0'' = Some (VStr ''c'')
     \<and> variables c10_quiet (foreach_var (c5_node ''x'')) = Some (VStr ''c'')"
    by (simp add: v)
  with h v c10_quiet_run show ?thesis by simp
qed

end
